theory Spec2Isabelle
  imports Main "HOL-Library.Word"
begin

section \<open>Strings\<close>

text \<open>
  A JavaScript string is a sequence of UTF-16 code units; \<open>length\<close>, \<open>substring\<close> and the
  regular expressions of the source (none has the \<open>u\<close> flag) all count code units. The
  Korean literals of the source are written as their code units.
\<close>

type_synonym jsstring = "16 word list"

definition ascii :: "string \<Rightarrow> jsstring" where
  "ascii s = map of_char s"

text \<open>The class \<open>\d\<close> of a JavaScript regular expression: the ten ASCII digits.\<close>

definition is_digit :: "16 word \<Rightarrow> bool" where
  "is_digit c \<longleftrightarrow> 0x30 \<le> c \<and> c \<le> 0x39"

text \<open>
  The class \<open>\s\<close>, which is also what \<open>String.prototype.trim\<close> and \<open>parseInt\<close> strip:
  the white space and line terminator code units of ECMAScript.
\<close>

definition js_space :: "16 word \<Rightarrow> bool" where
  "js_space c \<longleftrightarrow>
     c = 0x9 \<or> c = 0xA \<or> c = 0xB \<or> c = 0xC \<or> c = 0xD \<or> c = 0x20 \<or> c = 0xA0 \<or>
     c = 0x1680 \<or> (0x2000 \<le> c \<and> c \<le> 0x200A) \<or> c = 0x2028 \<or> c = 0x2029 \<or>
     c = 0x202F \<or> c = 0x205F \<or> c = 0x3000 \<or> c = 0xFEFF"

definition trim :: "jsstring \<Rightarrow> jsstring" where
  "trim s = rev (dropWhile js_space (rev (dropWhile js_space s)))"

text \<open>The decimal rendering of a number in a template literal (\<open>`${i + 1}`\<close>).\<close>

fun decimal :: "nat \<Rightarrow> jsstring" where
  "decimal n =
     (if n < 10 then [of_nat (48 + n)] else decimal (n div 10) @ [of_nat (48 + n mod 10)])"

declare decimal.simps [simp del]

text \<open>
  \<open>parseInt(s)\<close> with no radix: leading white space is skipped, a sign is read, a prefix
  \<open>0x\<close> or \<open>0X\<close> selects radix 16, and the longest prefix of digits of the radix is the
  value; with no digit the result is \<open>NaN\<close>, here \<open>None\<close>. The value is kept as an
  unbounded integer: the source only compares it with an array length after subtracting
  one, and a double is exact on every integer up to \<open>2 ^ 53\<close> and rounds a larger one to
  a value that is still at least \<open>2 ^ 53\<close>.
\<close>

definition digitval :: "16 word \<Rightarrow> nat" where
  "digitval c =
     (if 0x30 \<le> c \<and> c \<le> 0x39 then unat c - 48
      else if 0x61 \<le> c \<and> c \<le> 0x7A then unat c - 87
      else if 0x41 \<le> c \<and> c \<le> 0x5A then unat c - 55
      else 36)"

definition parseInt :: "jsstring \<Rightarrow> int option" where
  "parseInt str =
     (let s = dropWhile js_space str;
          neg = (case s of c # _ \<Rightarrow> c = 0x2D | [] \<Rightarrow> False);
          s1 = (case s of c # r \<Rightarrow> if c = 0x2D \<or> c = 0x2B then r else s | [] \<Rightarrow> s);
          hex = (case s1 of a # b # _ \<Rightarrow> a = 0x30 \<and> (b = 0x78 \<or> b = 0x58) | _ \<Rightarrow> False);
          radix = (if hex then 16 else 10);
          s2 = (if hex then drop 2 s1 else s1);
          z = takeWhile (\<lambda>c. digitval c < radix) s2;
          v = int (foldl (\<lambda>a c. a * radix + digitval c) 0 z)
      in if z = [] then None else Some (if neg then - v else v))"

section \<open>The answer synthesizer (services/openaiService.js)\<close>

subsection \<open>Documents\<close>

text \<open>
  A LangChain \<open>Document\<close>: its \<open>pageContent\<close> and the two metadata fields the repository
  reads or writes. A field that is absent (\<open>undefined\<close>) is \<open>None\<close>.
\<close>

record metadata =
  source :: "jsstring option"
  lastModified :: "nat option"

record doc =
  pageContent :: jsstring
  metadata :: metadata

record source_entry =
  title :: jsstring
  content :: jsstring

record answer_record =
  answer :: jsstring
  sources :: "source_entry list"

text \<open>
  Errors are values. \<open>External n\<close> is a failure of a collaborator (object storage, a
  parser, the embedding or generation provider); \<open>TypeError\<close> is the run-time error of
  calling a method on a value that does not have it; \<open>EmptyIndex\<close> is the error a Faiss
  store raises when it is saved before anything was added to it; \<open>Wrapped\<close> is the
  \<open>new Error(...)\<close> each \<open>catch\<close> block of the source throws around the error it caught.
\<close>

datatype stage = S3List | S3Get | S3Download | S3Load | Init | Retrieve | Reindex | Answer

datatype error = External nat | TypeError | EmptyIndex | Wrapped stage error

subsection \<open>The citation pattern\<close>

text \<open>
  \<open>sourcesPattern\<close> is \<^verbatim>\<open>/\[MS\s+(\d+(?:,\s*\d+)*)\]/i\<close>, where \<open>MS\<close> stands for the two
  Hangul syllables U+BB38 U+C11C of the source's word for "document" (code units
  \<open>0xBB38, 0xC11C\<close>). No code unit of the pattern has a case variant, so the flag \<open>i\<close>
  changes nothing. The pattern is deterministic: \<open>\s\<close>, \<open>\d\<close>, the comma and the brackets
  are pairwise disjoint, so each greedy loop must take its whole run and backtracking
  never finds a second way to match. \<open>citeTail\<close> runs the loop \<^verbatim>\<open>(?:,\s*\d+)*\<close> and
  returns what is left; an iteration that finds no digit is undone, leaving the comma.
\<close>

function citeTail :: "jsstring \<Rightarrow> jsstring" where
  "citeTail [] = []"
| "citeTail (c # r) =
     (if c = 0x2C then
        (let r1 = dropWhile js_space r in
         if takeWhile is_digit r1 = [] then c # r else citeTail (dropWhile is_digit r1))
      else c # r)"
  by pat_completeness auto
termination
proof (relation "measure length")
  show "wf (measure length)" by simp
next
  fix c :: "16 word" and r r1 :: jsstring
  assume "r1 = dropWhile js_space r"
  then have "length (dropWhile is_digit r1) \<le> length r"
    using length_dropWhile_le [of is_digit r1] length_dropWhile_le [of js_space r] by simp
  then show "(dropWhile is_digit r1, c # r) \<in> measure length" by simp
qed

text \<open>
  The pattern anchored at the start of \<open>s\<close>: the first capture group (the text between
  the white space and the closing bracket) when it matches.
\<close>

definition matchHere :: "jsstring \<Rightarrow> jsstring option" where
  "matchHere s =
     (case s of
        a # b # c # r1 \<Rightarrow>
          if a = 0x5B \<and> b = 0xBB38 \<and> c = 0xC11C \<and> takeWhile js_space r1 \<noteq> [] then
            (let r2 = dropWhile js_space r1 in
             if takeWhile is_digit r2 = [] then None
             else
               (let rest = citeTail (dropWhile is_digit r2) in
                case rest of
                  e # _ \<Rightarrow> if e = 0x5D then Some (take (length r2 - length rest) r2) else None
                | [] \<Rightarrow> None))
          else None
      | _ \<Rightarrow> None)"

text \<open>
  \<open>answerText.match(sourcesPattern)\<close>: the pattern has no \<open>g\<close> flag, so the result is the
  match at the leftmost position that has one, and \<open>null\<close> (here \<open>None\<close>) when none has.
\<close>

fun firstMatch :: "jsstring \<Rightarrow> jsstring option" where
  "firstMatch [] = matchHere []"
| "firstMatch (c # r) =
     (case matchHere (c # r) of Some g \<Rightarrow> Some g | None \<Rightarrow> firstMatch r)"

text \<open>\<open>str.split(/,\s*/)\<close>: the pieces between the separators, each separator a comma and
  the white space after it.\<close>

function splitCommaWs :: "jsstring \<Rightarrow> jsstring list" where
  "splitCommaWs s =
     (case dropWhile (\<lambda>c. c \<noteq> 0x2C) s of
        [] \<Rightarrow> [s]
      | _ # r \<Rightarrow> takeWhile (\<lambda>c. c \<noteq> 0x2C) s # splitCommaWs (dropWhile js_space r))"
  by pat_completeness auto
termination
proof (relation "measure length")
  show "wf (measure length)" by simp
next
  fix s r :: jsstring and x :: "16 word"
  assume a: "dropWhile (\<lambda>c. c \<noteq> 0x2C) s = x # r"
  have "length (dropWhile js_space r) \<le> length r"
    by (rule length_dropWhile_le)
  moreover have "length (x # r) \<le> length s"
    using length_dropWhile_le [of "\<lambda>c. c \<noteq> 0x2C" s] a by simp
  ultimately show "(dropWhile js_space r, s) \<in> measure length" by simp
qed

declare splitCommaWs.simps [simp del]

subsection \<open>Citation extraction (generateAnswer, lines 62 to 78)\<close>

definition fallbackTitle :: "nat \<Rightarrow> jsstring" where
  "fallbackTitle i = [0xBB38, 0xC11C, 0x20] @ decimal (i + 1)"

text \<open>\<open>doc.metadata.source || fallback\<close>: an absent or empty source is falsy.\<close>

definition sourceOr :: "doc \<Rightarrow> jsstring \<Rightarrow> jsstring" where
  "sourceOr d fallback =
     (case source (metadata d) of
        None \<Rightarrow> fallback
      | Some s \<Rightarrow> if s = [] then fallback else s)"

definition sourceIndices :: "jsstring \<Rightarrow> int option list" where
  "sourceIndices answerText =
     (case firstMatch answerText of
        None \<Rightarrow> []
      | Some g \<Rightarrow>
          if g = [] then []
          else map (\<lambda>num. map_option (\<lambda>n. n - 1) (parseInt (trim num))) (splitCommaWs g))"

definition extractSources :: "jsstring \<Rightarrow> doc list \<Rightarrow> source_entry list" where
  "extractSources answerText relevantDocuments =
     map (\<lambda>index.
            \<lparr>title = sourceOr (relevantDocuments ! nat index) (fallbackTitle (nat index)),
             content = take 150 (pageContent (relevantDocuments ! nat index)) @ ascii ''...''\<rparr>)
         [index. Some index \<leftarrow> sourceIndices answerText,
                 0 \<le> index \<and> index < int (length relevantDocuments)]"

subsection \<open>generateAnswer\<close>

text \<open>The fixed answer of the short circuit (line 30), 51 code units.\<close>

definition noInformationAnswer :: jsstring where
  "noInformationAnswer =
     [0xC8C4, 0xC1A1, 0xD569, 0xB2C8, 0xB2E4, 0x2E, 0x20, 0xC9C8, 0xBB38, 0xACFC, 0x20,
      0xAD00, 0xB828, 0xB41C, 0x20, 0xC815, 0xBCF4, 0xB97C, 0x20, 0xCC3E, 0xC744, 0x20,
      0xC218, 0x20, 0xC5C6, 0xC2B5, 0xB2C8, 0xB2E4, 0x2E, 0x20, 0xB2E4, 0xB978, 0x20,
      0xC9C8, 0xBB38, 0xC774, 0xB098, 0x20, 0xD0A4, 0xC6CC, 0xB4DC, 0xB85C, 0x20, 0xC2DC,
      0xB3C4, 0xD574, 0x20, 0xC8FC, 0xC138, 0xC694, 0x2E]"

text \<open>\<open>createSystemPrompt()\<close>: the instructional preamble, 224 code units.\<close>

definition createSystemPrompt :: jsstring where
  "createSystemPrompt =
     [0xB2F9, 0xC2E0, 0xC740, 0x20, 0xAE30, 0xC5C5, 0x20, 0xB0B4, 0xBD80, 0x20, 0xBB38,
      0xC11C, 0x20, 0xAE30, 0xBC18, 0x20, 0xC9C0, 0xC2DD, 0xC744, 0x20, 0xD65C, 0xC6A9,
      0xD558, 0xC5EC, 0x20, 0xC9C8, 0xBB38, 0xC5D0, 0x20, 0xB2F5, 0xBCC0, 0xD558, 0xB294,
      0x20, 0x41, 0x49, 0x20, 0xC5B4, 0xC2DC, 0xC2A4, 0xD134, 0xD2B8, 0xC785, 0xB2C8,
      0xB2E4, 0x2E, 0xA, 0xB2E4, 0xC74C, 0x20, 0xAC00, 0xC774, 0xB4DC, 0xB77C, 0xC778,
      0xC744, 0x20, 0xB530, 0xB77C, 0xC8FC, 0xC138, 0xC694, 0x3A, 0xA, 0xA, 0x31, 0x2E,
      0x20, 0xC81C, 0xACF5, 0xB41C, 0x20, 0xBB38, 0xC11C, 0xC758, 0x20, 0xC815, 0xBCF4,
      0xB97C, 0x20, 0xAE30, 0xBC18, 0xC73C, 0xB85C, 0x20, 0xC815, 0xD655, 0xD558, 0xAC8C,
      0x20, 0xB2F5, 0xBCC0, 0xD558, 0xC138, 0xC694, 0x2E, 0xA, 0x32, 0x2E, 0x20, 0xBB38,
      0xC11C, 0xC5D0, 0xC11C, 0x20, 0xCC3E, 0xC744, 0x20, 0xC218, 0x20, 0xC5C6, 0xB294,
      0x20, 0xC815, 0xBCF4, 0xC5D0, 0x20, 0xB300, 0xD574, 0xC11C, 0xB294, 0x20, 0xBAA8,
      0xB978, 0xB2E4, 0xACE0, 0x20, 0xC194, 0xC9C1, 0xD558, 0xAC8C, 0x20, 0xB9D0, 0xD558,
      0xC138, 0xC694, 0x2E, 0xA, 0x33, 0x2E, 0x20, 0xB2F5, 0xBCC0, 0x20, 0xC2DC, 0x20,
      0xCC38, 0xC870, 0xD55C, 0x20, 0xBB38, 0xC11C, 0xC758, 0x20, 0xCD9C, 0xCC98, 0xB97C,
      0x20, 0xD568, 0xAED8, 0x20, 0xC81C, 0xACF5, 0xD558, 0xC138, 0xC694, 0x2E, 0xA, 0x34,
      0x2E, 0x20, 0xC804, 0xBB38, 0x20, 0xC6A9, 0xC5B4, 0xB098, 0x20, 0xBCF5, 0xC7A1,
      0xD55C, 0x20, 0xAC1C, 0xB150, 0xC774, 0x20, 0xC788, 0xB2E4, 0xBA74, 0x20, 0xC27D,
      0xAC8C, 0x20, 0xC124, 0xBA85, 0xD574, 0xC8FC, 0xC138, 0xC694, 0x2E, 0xA, 0x35, 0x2E,
      0x20, 0xACF5, 0xC190, 0xD558, 0xACE0, 0x20, 0xC804, 0xBB38, 0xC801, 0xC778, 0x20,
      0xC5B4, 0xC870, 0xB97C, 0x20, 0xC720, 0xC9C0, 0xD558, 0xC138, 0xC694, 0x2E]"

text \<open>\<open>xs.join(sep)\<close>.\<close>

fun joinWith :: "jsstring \<Rightarrow> jsstring list \<Rightarrow> jsstring" where
  "joinWith sep [] = []"
| "joinWith sep [x] = x"
| "joinWith sep (x # y # ys) = x @ sep @ joinWith sep (y # ys)"

text \<open>
  One entry of \<open>contexts\<close> (lines 36 to 40): the document's 1-based number in brackets,
  its source (or the fallback title) and its text.
\<close>

definition contextEntry :: "nat \<Rightarrow> doc \<Rightarrow> jsstring" where
  "contextEntry i d =
     [0xBB38, 0xC11C, 0x20, 0x5B] @ decimal (i + 1) @ [0x5D, 0x20, 0x28, 0xCD9C, 0xCC98, 0x3A, 0x20] @
     sourceOr d (fallbackTitle i) @ [0x29, 0x3A, 0xA] @ pageContent d @ [0xA]"

text \<open>
  The prompt (lines 43 to 54). Its last line asks for the cited numbers in the form of
  the bracketed example \<open>0x5B, 0xBB38, 0xC11C, 0x20, 0x31, 0x2C, 0x20, 0xBB38, 0xC11C, 0x20, 0x33, 0x5D\<close>.
\<close>

definition buildPrompt :: "jsstring \<Rightarrow> doc list \<Rightarrow> jsstring" where
  "buildPrompt query relevantDocuments =
     [0xA] @ createSystemPrompt @
     [0xA, 0xA, 0xB2E4, 0xC74C, 0xC740, 0x20, 0xB2F9, 0xC2E0, 0xC774, 0x20, 0xC9C8, 0xBB38,
      0xC5D0, 0x20, 0xB2F5, 0xD558, 0xAE30, 0x20, 0xC704, 0xD574, 0x20, 0xCC38, 0xC870,
      0xD560, 0x20, 0xC218, 0x20, 0xC788, 0xB294, 0x20, 0xAD00, 0xB828, 0x20, 0xBB38,
      0xC11C, 0xC785, 0xB2C8, 0xB2E4, 0x3A, 0xA] @
     joinWith [0xA] (map (\<lambda>(i, d). contextEntry i d) (enumerate 0 relevantDocuments)) @
     [0xA, 0xA, 0xC0AC, 0xC6A9, 0xC790, 0x20, 0xC9C8, 0xBB38, 0x3A, 0x20] @ query @
     [0xA, 0xA, 0xB2F5, 0xBCC0, 0x20, 0xD615, 0xC2DD, 0x3A, 0xA, 0x31, 0x2E, 0x20, 0xC9C8,
      0xBB38, 0xC5D0, 0x20, 0xC9C1, 0xC811, 0xC801, 0xC73C, 0xB85C, 0x20, 0xB2F5, 0xBCC0,
      0xD574, 0xC8FC, 0xC138, 0xC694, 0x2E, 0xA, 0x32, 0x2E, 0x20, 0xB2F5, 0xBCC0, 0x20,
      0xD6C4, 0x20, 0xCC38, 0xC870, 0xD55C, 0x20, 0xBB38, 0xC11C, 0x20, 0xBC88, 0xD638,
      0xB97C, 0x20, 0x5B, 0xBB38, 0xC11C, 0x20, 0x31, 0x2C, 0x20, 0xBB38, 0xC11C, 0x20,
      0x33, 0x5D, 0xACFC, 0x20, 0xAC19, 0xC740, 0x20, 0xD615, 0xC2DD, 0xC73C, 0xB85C, 0x20,
      0xC81C, 0xC2DC, 0xD574, 0xC8FC, 0xC138, 0xC694, 0x2E, 0xA]"

text \<open>
  \<open>generateAnswer(query, relevantDocuments)\<close>. The generation oracle \<open>model.invoke\<close> is the
  parameter \<open>invoke\<close>: the \<open>content\<close> of the message it returns, or its failure. The second
  component of the result lists the prompts sent to the oracle, in order, so that a call
  that is never made is visible. \<open>relevantDocuments\<close> is \<open>None\<close> when the argument is
  absent. On an empty \<open>content\<close> the expression \<open>response.content || response\<close> is the
  message object, which has no \<open>match\<close> method: the call raises, and the \<open>catch\<close> block
  wraps the error as it wraps a failure of the oracle.
\<close>

definition generateAnswer ::
  "(jsstring \<Rightarrow> error + jsstring) \<Rightarrow> jsstring \<Rightarrow> doc list option \<Rightarrow>
     (error + answer_record) \<times> jsstring list" where
  "generateAnswer invoke query relevantDocuments =
     (case relevantDocuments of
        None \<Rightarrow> (Inr \<lparr>answer = noInformationAnswer, sources = []\<rparr>, [])
      | Some docs \<Rightarrow>
          if docs = [] then (Inr \<lparr>answer = noInformationAnswer, sources = []\<rparr>, [])
          else
            (let prompt = buildPrompt query docs in
             case invoke prompt of
               Inl e \<Rightarrow> (Inl (Wrapped Answer e), [prompt])
             | Inr answerText \<Rightarrow>
                 if answerText = [] then (Inl (Wrapped Answer TypeError), [prompt])
                 else (Inr \<lparr>answer = answerText,
                            sources = extractSources answerText docs\<rparr>, [prompt])))"

section \<open>Object storage (services/s3Service.js)\<close>

record s3object =
  key :: jsstring
  objSize :: nat
  objLastModified :: nat

text \<open>
  The vector store held in the variable \<open>vectorStore\<close>, by the documents it indexes, and
  what lies at \<open>vectorDBPath\<close> when the path exists: an index that \<open>FaissStore.load\<close>
  reads back, or anything else (the empty directory server.js creates at start, files of
  an incompatible version), on which \<open>FaissStore.load\<close> raises.
\<close>

datatype vstore = FaissStore "doc list" | MemoryVectorStore "doc list"

datatype persisted = Unloadable | SavedIndex "doc list"

text \<open>
  The collaborators, as parameters. None of them is code of the repository:
  \<^item> \<open>listObjectsV2\<close>: the answer of \<open>s3Client.send(new ListObjectsV2Command(...))\<close>, that
    is its \<open>Contents\<close> array, which the SDK declares optional (\<open>None\<close>), or a failure;
  \<^item> \<open>extnameLower\<close>: \<open>path.extname(key).toLowerCase()\<close>;
  \<^item> \<open>getObject\<close>: the body of \<open>s3Client.send(new GetObjectCommand(...))\<close> read to its
    end, or a failure;
  \<^item> \<open>tempPath\<close>: \<open>path.join(tempDir, path.basename(key))\<close>;
  \<^item> \<open>pdfLoad\<close>, \<open>docxLoad\<close>: \<open>new PDFLoader(path).load()\<close> and \<open>new DocxLoader(path).load()\<close>
    on a file with the given content;
  \<^item> \<open>splitDocuments\<close>: \<open>new RecursiveCharacterTextSplitter({chunkSize, chunkOverlap})
    .splitDocuments(documents)\<close>;
  \<^item> \<open>embedDocuments\<close>, \<open>embedQuery\<close>: whether the embedding provider fails on these
    documents or on this query (\<open>None\<close>: it does not);
  \<^item> \<open>faissSave\<close>: \<open>vectorStore.save(vectorDBPath)\<close> on a store of the given chunks, with
    what lies at the path when it is called: its failure, if it fails, and what lies at the
    path after a failed save;
  \<^item> \<open>similarity\<close>: the similarity of a query and an indexed document;
  \<^item> \<open>modelInvoke\<close>: the generation oracle of \<open>generateAnswer\<close>.
\<close>

record env =
  listObjectsV2 :: "error + s3object list option"
  extnameLower :: "jsstring \<Rightarrow> jsstring"
  getObject :: "jsstring \<Rightarrow> error + jsstring"
  tempPath :: "jsstring \<Rightarrow> jsstring"
  pdfLoad :: "jsstring \<Rightarrow> jsstring \<Rightarrow> error + doc list"
  docxLoad :: "jsstring \<Rightarrow> jsstring \<Rightarrow> error + doc list"
  splitDocuments :: "nat \<Rightarrow> nat \<Rightarrow> doc list \<Rightarrow> error + doc list"
  embedDocuments :: "doc list \<Rightarrow> error option"
  embedQuery :: "jsstring \<Rightarrow> error option"
  faissSave :: "doc list \<Rightarrow> persisted option \<Rightarrow> error option \<times> persisted option"
  similarity :: "jsstring \<Rightarrow> doc \<Rightarrow> int"
  modelInvoke :: "jsstring \<Rightarrow> error + jsstring"

text \<open>The files of the temporary directory: path to content.\<close>

type_synonym files = "jsstring \<rightharpoonup> jsstring"

text \<open>\<open>listAllObjects\<close>: \<open>response.Contents.map(...)\<close> raises when \<open>Contents\<close> is absent.\<close>

definition listAllObjects :: "env \<Rightarrow> error + s3object list" where
  "listAllObjects e =
     (case listObjectsV2 e of
        Inl err \<Rightarrow> Inl (Wrapped S3List err)
      | Inr None \<Rightarrow> Inl (Wrapped S3List TypeError)
      | Inr (Some contents) \<Rightarrow> Inr contents)"

definition listObjectsByExtension :: "env \<Rightarrow> jsstring list \<Rightarrow> error + s3object list" where
  "listObjectsByExtension e extensions =
     (case listAllObjects e of
        Inl err \<Rightarrow> Inl err
      | Inr allObjects \<Rightarrow>
          Inr (filter (\<lambda>obj. extnameLower e (key obj) \<in> set extensions) allObjects))"

definition getObjectContent :: "env \<Rightarrow> jsstring \<Rightarrow> error + jsstring" where
  "getObjectContent e k =
     (case getObject e k of
        Inl err \<Rightarrow> Inl (Wrapped S3Get err)
      | Inr body \<Rightarrow> Inr body)"

text \<open>
  \<open>downloadObjectToTemp\<close>: the body is written to the temporary path, which is returned.
  A failed request leaves no file.
\<close>

definition downloadObjectToTemp :: "env \<Rightarrow> jsstring \<Rightarrow> files \<Rightarrow> (error + jsstring) \<times> files" where
  "downloadObjectToTemp e k fs =
     (case getObject e k of
        Inl err \<Rightarrow> (Inl (Wrapped S3Download err), fs)
      | Inr body \<Rightarrow> (Inr (tempPath e k), fs(tempPath e k \<mapsto> body)))"

section \<open>The retrieval service (services/ragService.js)\<close>

definition SUPPORTED_EXTENSIONS :: "jsstring list" where
  "SUPPORTED_EXTENSIONS =
     [ascii ''.pdf'', ascii ''.txt'', ascii ''.md'', ascii ''.docx'', ascii ''.html'']"

record rag_state =
  vectorStore :: "vstore option"
  diskIndex :: "persisted option"
  tempFiles :: files

text \<open>\<open>splitDocumentsIntoChunks\<close> (lines 34 to 41): the library's splitter with chunk size 500
  and overlap 200.\<close>

definition splitDocumentsIntoChunks :: "env \<Rightarrow> doc list \<Rightarrow> error + doc list" where
  "splitDocumentsIntoChunks e documents = splitDocuments e 500 200 documents"

text \<open>Lines 96 to 99: the temporary file is removed when a path was set and the file exists.\<close>

definition removeTemp :: "jsstring \<Rightarrow> files \<Rightarrow> files" where
  "removeTemp tempFilePath fs =
     (if tempFilePath \<noteq> [] \<and> fs tempFilePath \<noteq> None then fs(tempFilePath := None) else fs)"

text \<open>
  A loader reads the file at the path it was given; it raises when the file is missing.
\<close>

definition loadFile ::
  "(jsstring \<Rightarrow> jsstring \<Rightarrow> error + doc list) \<Rightarrow> jsstring \<Rightarrow> files \<Rightarrow> error + doc list" where
  "loadFile loader p fs =
     (case fs p of
        None \<Rightarrow> Inl (External 0)
      | Some body \<Rightarrow> loader p body)"

text \<open>
  The body of the inner \<open>try\<close> (lines 63 to 101) for one object: the documents it pushes,
  or the error that sends control to the \<open>catch\<close> of line 102, and the files it leaves.
  The removal of lines 96 to 99 is the last statement of the \<open>try\<close> block, so it is
  reached only when nothing before it raised.
\<close>

definition processObject :: "env \<Rightarrow> s3object \<Rightarrow> files \<Rightarrow> (error + doc list) \<times> files" where
  "processObject e obj fs =
     (let ext = extnameLower e (key obj) in
      if ext = ascii ''.pdf'' then
        (case downloadObjectToTemp e (key obj) fs of
           (Inl err, fs1) \<Rightarrow> (Inl err, fs1)
         | (Inr tempFilePath, fs1) \<Rightarrow>
             (case loadFile (pdfLoad e) tempFilePath fs1 of
                Inl err \<Rightarrow> (Inl err, fs1)
              | Inr pdfDocs \<Rightarrow> (Inr pdfDocs, removeTemp tempFilePath fs1)))
      else if ext = ascii ''.docx'' then
        (case downloadObjectToTemp e (key obj) fs of
           (Inl err, fs1) \<Rightarrow> (Inl err, fs1)
         | (Inr tempFilePath, fs1) \<Rightarrow>
             (case loadFile (docxLoad e) tempFilePath fs1 of
                Inl err \<Rightarrow> (Inl err, fs1)
              | Inr docxDocs \<Rightarrow> (Inr docxDocs, removeTemp tempFilePath fs1)))
      else
        (case getObjectContent e (key obj) of
           Inl err \<Rightarrow> (Inl err, fs)
         | Inr text \<Rightarrow>
             (Inr [\<lparr>pageContent = text,
                    metadata = \<lparr>source = Some (key obj),
                                lastModified = Some (objLastModified obj)\<rparr>\<rparr>], fs)))"

text \<open>The loop of lines 61 to 107: the \<open>catch\<close> logs the error and goes on.\<close>

fun loadLoop :: "env \<Rightarrow> s3object list \<Rightarrow> doc list \<Rightarrow> files \<Rightarrow> doc list \<times> files" where
  "loadLoop e [] documents fs = (documents, fs)"
| "loadLoop e (obj # objects) documents fs =
     (case processObject e obj fs of
        (Inl err, fs1) \<Rightarrow> loadLoop e objects documents fs1
      | (Inr docs, fs1) \<Rightarrow> loadLoop e objects (documents @ docs) fs1)"

definition loadDocumentsFromS3 :: "env \<Rightarrow> files \<Rightarrow> (error + doc list) \<times> files" where
  "loadDocumentsFromS3 e fs =
     (case listObjectsByExtension e SUPPORTED_EXTENSIONS of
        Inl err \<Rightarrow> (Inl (Wrapped S3Load err), fs)
      | Inr objects \<Rightarrow>
          if objects = [] then (Inr [], fs)
          else (case loadLoop e objects [] fs of (documents, fs1) \<Rightarrow> (Inr documents, fs1)))"

text \<open>The entry of the placeholder index (line 141): a document with no metadata.\<close>

definition noDocumentsAvailable :: doc where
  "noDocumentsAvailable =
     \<lparr>pageContent = ascii ''No documents available'',
      metadata = \<lparr>source = None, lastModified = None\<rparr>\<rparr>"

definition faissLoad :: "persisted \<Rightarrow> error + vstore" where
  "faissLoad p =
     (case p of
        Unloadable \<Rightarrow> Inl (External 0)
      | SavedIndex docs \<Rightarrow> Inr (FaissStore docs))"

text \<open>\<open>FaissStore.fromDocuments\<close> and \<open>MemoryVectorStore.fromDocuments\<close>: one pass of the
  embedding provider over the documents, then the store that indexes them.\<close>

definition fromDocuments :: "env \<Rightarrow> (doc list \<Rightarrow> vstore) \<Rightarrow> doc list \<Rightarrow> error + vstore" where
  "fromDocuments e mk docs =
     (case embedDocuments e docs of
        Some err \<Rightarrow> Inl err
      | None \<Rightarrow> Inr (mk docs))"

text \<open>
  \<open>vectorStore.save(vectorDBPath)\<close> (line 155) on a store of the given chunks: the failure
  and what then lies at the path, or success, after which the saved index lies there. A
  store built from no chunk has no index, and saving it raises.
\<close>

definition saveStore :: "env \<Rightarrow> doc list \<Rightarrow> persisted option \<Rightarrow> error option \<times> persisted option" where
  "saveStore e chunks disk =
     (case faissSave e chunks disk of
        (Some err, left) \<Rightarrow> (Some err, left)
      | (None, left) \<Rightarrow>
          if chunks = [] then (Some EmptyIndex, left) else (None, Some (SavedIndex chunks)))"

text \<open>
  \<open>initializeVectorStore\<close>, lines 134 to 158: the build. Only its last branch writes to
  \<open>vectorDBPath\<close>. The variable \<open>vectorStore\<close> is assigned at line 152, before the save, so
  it keeps the new store when the save raises. Every error is caught at line 159 and
  thrown again, wrapped.
\<close>

definition buildVectorStore :: "env \<Rightarrow> rag_state \<Rightarrow> (error + bool) \<times> rag_state" where
  "buildVectorStore e st =
     (case loadDocumentsFromS3 e (tempFiles st) of
        (Inl err, fs1) \<Rightarrow> (Inl (Wrapped Init err), st\<lparr>tempFiles := fs1\<rparr>)
      | (Inr documents, fs1) \<Rightarrow>
          if documents = [] then
            (case fromDocuments e MemoryVectorStore [noDocumentsAvailable] of
               Inl err \<Rightarrow> (Inl (Wrapped Init err), st\<lparr>tempFiles := fs1\<rparr>)
             | Inr store \<Rightarrow> (Inr False, st\<lparr>tempFiles := fs1, vectorStore := Some store\<rparr>))
          else
            (case splitDocumentsIntoChunks e documents of
               Inl err \<Rightarrow> (Inl (Wrapped Init err), st\<lparr>tempFiles := fs1\<rparr>)
             | Inr chunks \<Rightarrow>
                 (case fromDocuments e FaissStore chunks of
                    Inl err \<Rightarrow> (Inl (Wrapped Init err), st\<lparr>tempFiles := fs1\<rparr>)
                  | Inr store \<Rightarrow>
                      (case saveStore e chunks (diskIndex st) of
                         (Some err, left) \<Rightarrow>
                           (Inl (Wrapped Init err),
                            st\<lparr>tempFiles := fs1, vectorStore := Some store, diskIndex := left\<rparr>)
                       | (None, saved) \<Rightarrow>
                           (Inr True,
                            st\<lparr>tempFiles := fs1, vectorStore := Some store,
                               diskIndex := saved\<rparr>)))))"

text \<open>
  \<open>initializeVectorStore\<close>: when \<open>vectorDBPath\<close> exists the persisted index is loaded; a
  failure of the load is logged and the build runs (lines 123 to 132).
\<close>

definition initializeVectorStore :: "env \<Rightarrow> rag_state \<Rightarrow> (error + bool) \<times> rag_state" where
  "initializeVectorStore e st =
     (case diskIndex st of
        None \<Rightarrow> buildVectorStore e st
      | Some p \<Rightarrow>
          (case faissLoad p of
             Inr store \<Rightarrow> (Inr True, st\<lparr>vectorStore := Some store\<rparr>)
           | Inl err \<Rightarrow> buildVectorStore e st))"

fun indexed :: "vstore \<Rightarrow> doc list" where
  "indexed (FaissStore docs) = docs"
| "indexed (MemoryVectorStore docs) = docs"

text \<open>
  \<open>vectorStore.similaritySearch(query, k)\<close>: the query is embedded, and the \<open>k\<close> indexed
  documents most similar to it are returned, most similar first (fewer when the index
  holds fewer).
\<close>

definition similaritySearch :: "env \<Rightarrow> vstore \<Rightarrow> jsstring \<Rightarrow> nat \<Rightarrow> error + doc list" where
  "similaritySearch e store query k =
     (case embedQuery e query of
        Some err \<Rightarrow> Inl err
      | None \<Rightarrow> Inr (take k (sort_key (\<lambda>d. - similarity e query d) (indexed store))))"

text \<open>\<open>retrieveRelevantDocuments(query, topK = 5)\<close>, lines 166 to 183.\<close>

definition retrieveRelevantDocuments ::
  "env \<Rightarrow> jsstring \<Rightarrow> nat \<Rightarrow> rag_state \<Rightarrow> (error + doc list) \<times> rag_state" where
  "retrieveRelevantDocuments e query topK st =
     (case (if vectorStore st = None then initializeVectorStore e st else (Inr True, st)) of
        (Inl err, st1) \<Rightarrow> (Inl (Wrapped Retrieve err), st1)
      | (Inr _, st1) \<Rightarrow>
          (case vectorStore st1 of
             None \<Rightarrow> (Inl (Wrapped Retrieve TypeError), st1)
           | Some store \<Rightarrow>
               (case similaritySearch e store query topK of
                  Inl err \<Rightarrow> (Inl (Wrapped Retrieve err), st1)
                | Inr results \<Rightarrow> (Inr results, st1))))"

record reindex_result =
  success :: bool
  message :: jsstring

text \<open>The two messages of line 204, 17 and 14 code units.\<close>

definition reindexDoneMessage :: jsstring where
  "reindexDoneMessage =
     [0xBB38, 0xC11C, 0x20, 0xC7AC, 0xC0C9, 0xC778, 0xD654, 0xAC00, 0x20, 0xC644, 0xB8CC,
      0xB418, 0xC5C8, 0xC2B5, 0xB2C8, 0xB2E4, 0x2E]"

definition nothingToIndexMessage :: jsstring where
  "nothingToIndexMessage =
     [0xC0C9, 0xC778, 0xD654, 0xD560, 0x20, 0xBB38, 0xC11C, 0xAC00, 0x20, 0xC5C6, 0xC2B5,
      0xB2C8, 0xB2E4, 0x2E]"

text \<open>\<open>reindexDocuments\<close> of the retrieval service, lines 186 to 210. \<open>fs.rmSync\<close> with
  \<open>recursive\<close> and \<open>force\<close> removes whatever lies at the path.\<close>

definition reindexDocuments :: "env \<Rightarrow> rag_state \<Rightarrow> (error + reindex_result) \<times> rag_state" where
  "reindexDocuments e st =
     (let st1 = (if diskIndex st \<noteq> None then st\<lparr>diskIndex := None\<rparr> else st);
          st2 = st1\<lparr>vectorStore := None\<rparr>
      in case initializeVectorStore e st2 of
           (Inl err, st3) \<Rightarrow> (Inl (Wrapped Reindex err), st3)
         | (Inr result, st3) \<Rightarrow>
             (Inr \<lparr>success = result,
                   message = (if result then reindexDoneMessage else nothingToIndexMessage)\<rparr>,
              st3))"

section \<open>The request handlers (server.js)\<close>

record server_state =
  isInitialized :: bool
  rag :: rag_state

datatype response =
    BadRequest
  | ServerError error
  | AnswerResponse answer_record
  | ReindexResponse reindex_result
  | StatusResponse bool

text \<open>
  Lines 54 to 58 of \<open>handleQuestion\<close>: the vector store is initialized when
  \<open>isInitialized\<close> is false, and \<open>isInitialized\<close> becomes what the initialization returns.
\<close>

definition ensureInitialized :: "env \<Rightarrow> server_state \<Rightarrow> error option \<times> server_state" where
  "ensureInitialized e s =
     (if \<not> isInitialized s then
        (case initializeVectorStore e (rag s) of
           (Inl err, r1) \<Rightarrow> (Some err, s\<lparr>rag := r1\<rparr>)
         | (Inr result, r1) \<Rightarrow> (None, s\<lparr>rag := r1, isInitialized := result\<rparr>))
      else (None, s))"

text \<open>
  \<open>handleQuestion\<close>: \<open>query\<close> is \<open>None\<close> when the request body has no string under that
  name. The retrieval uses the default \<open>topK\<close>, 5.
\<close>

definition handleQuestion :: "env \<Rightarrow> jsstring option \<Rightarrow> server_state \<Rightarrow> response \<times> server_state" where
  "handleQuestion e query s =
     (case query of
        None \<Rightarrow> (BadRequest, s)
      | Some q \<Rightarrow>
          if q = [] \<or> trim q = [] then (BadRequest, s)
          else
            (case ensureInitialized e s of
               (Some err, s1) \<Rightarrow> (ServerError err, s1)
             | (None, s1) \<Rightarrow>
                 (case retrieveRelevantDocuments e q 5 (rag s1) of
                    (Inl err, r2) \<Rightarrow> (ServerError err, s1\<lparr>rag := r2\<rparr>)
                  | (Inr relevantDocuments, r2) \<Rightarrow>
                      (case fst (generateAnswer (modelInvoke e) q (Some relevantDocuments)) of
                         Inl err \<Rightarrow> (ServerError err, s1\<lparr>rag := r2\<rparr>)
                       | Inr a \<Rightarrow> (AnswerResponse a, s1\<lparr>rag := r2\<rparr>)))))"

text \<open>The handler \<open>reindexDocuments\<close> of server.js (lines 102 to 118) and \<open>checkStatus\<close>.\<close>

definition reindexDocumentsHandler :: "env \<Rightarrow> server_state \<Rightarrow> response \<times> server_state" where
  "reindexDocumentsHandler e s =
     (case reindexDocuments e (rag s) of
        (Inl err, r1) \<Rightarrow> (ServerError err, s\<lparr>rag := r1\<rparr>)
      | (Inr result, r1) \<Rightarrow>
          (ReindexResponse result, s\<lparr>rag := r1, isInitialized := success result\<rparr>))"

definition checkStatus :: "server_state \<Rightarrow> response" where
  "checkStatus s = StatusResponse (isInitialized s)"

text \<open>
  The callback of \<open>app.listen\<close> (lines 153 to 166), run once when the server starts: it
  calls \<open>initializeVectorStore\<close> without looking at \<open>isInitialized\<close>, and sets
  \<open>isInitialized\<close> to \<open>true\<close> whatever is returned. An error is caught and logged.
\<close>

definition startUpCallback :: "env \<Rightarrow> server_state \<Rightarrow> error option \<times> server_state" where
  "startUpCallback e s =
     (case initializeVectorStore e (rag s) of
        (Inl err, r1) \<Rightarrow> (Some err, s\<lparr>rag := r1\<rparr>)
      | (Inr result, r1) \<Rightarrow> (None, s\<lparr>rag := r1, isInitialized := True\<rparr>))"

section \<open>Concurrent callers of the initialization\<close>

text \<open>
  JavaScript runs one callback at a time: an \<open>async\<close> function runs until it awaits a
  pending promise, and goes on when that promise is resolved. What the initialization
  awaits is input and output (the disk, object storage, the embedding provider), so the
  order in which the awaited operations of several callers complete is not the program's
  to choose. The callers of \<open>initializeVectorStore\<close> during a start are the callback of
  \<open>app.listen\<close> and the requests that reach lines 54 to 58 of \<open>handleQuestion\<close>. Each is a
  process of its own, whose program counter is the \<open>await\<close> of \<open>initializeVectorStore\<close> it
  is suspended at (lines 126, 135, 140, 148, 152 and 155). One step, \<open>resume\<close>, is the
  arrival of the caller or the resolution of the promise it awaits, and runs the code up
  to the next \<open>await\<close>. When \<open>initializeVectorStore\<close> returns, the continuation of the
  caller, which assigns \<open>isInitialized\<close>, runs before any other input or output is
  handled, so it belongs to the same step.

  \<^item> \<open>FaissStore.load\<close> reads the files at \<open>vectorDBPath\<close> between its call and its
    resolution: the step that resolves it takes what lies there then.
  \<^item> The ingestion pass \<open>loadDocumentsFromS3\<close> awaits a listing, and a download and a
    parse for every object, on temporary paths that the passes of all callers share:
    what the pass of one caller returns depends on how the downloads, parses and
    removals of the others fall. So the outcome of each caller's pass is a parameter,
    \<open>ingest\<close>, of which nothing is fixed here; for a caller on its own it is
    \<open>loadDocumentsFromS3\<close>. The pass reads and writes nothing but the temporary files.
  \<^item> \<open>vectorStore.save\<close> writes the index and then resolves: the write is a step of its
    own, since the arrival or the load of another caller may fall between the two.

  The schedules of the model are more than the executions of the program: an awaited
  operation that does no input or output, as the splitting may be, resolves before any
  other caller is resumed. What holds for every schedule holds for every execution.

  \<open>embeddingPasses\<close> counts the calls of \<open>fromDocuments\<close>, each a pass of the embedding
  provider over the documents of an index under construction, and \<open>saves\<close> the indexes
  written to \<open>vectorDBPath\<close>.
\<close>

datatype caller = StartUp | Request nat

datatype pc =
    Arrived
  | AwaitLoad
  | AwaitDocuments
  | AwaitPlaceholder
  | AwaitSplit "doc list"
  | AwaitFaiss "doc list"
  | AwaitSave "doc list"
  | AwaitSaved
  | Done
  | Failed error

record shared =
  server :: server_state
  embeddingPasses :: nat
  saves :: nat

definition setRag :: "(rag_state \<Rightarrow> rag_state) \<Rightarrow> shared \<Rightarrow> shared" where
  "setRag f sh = sh\<lparr>server := (server sh)\<lparr>rag := f (rag (server sh))\<rparr>\<rparr>"

definition setInitialized :: "bool \<Rightarrow> shared \<Rightarrow> shared" where
  "setInitialized b sh = sh\<lparr>server := (server sh)\<lparr>isInitialized := b\<rparr>\<rparr>"

definition startPass :: "shared \<Rightarrow> shared" where
  "startPass sh = sh\<lparr>embeddingPasses := Suc (embeddingPasses sh)\<rparr>"

definition countSave :: "shared \<Rightarrow> shared" where
  "countSave sh = sh\<lparr>saves := Suc (saves sh)\<rparr>"

text \<open>
  What lies at \<open>vectorDBPath\<close>, read by \<open>FaissStore.load\<close>: nothing there is a failure too.
\<close>

definition loadPersisted :: "persisted option \<Rightarrow> error + vstore" where
  "loadPersisted disk =
     (case disk of
        None \<Rightarrow> Inl (External 0)
      | Some p \<Rightarrow> faissLoad p)"

text \<open>
  The continuation of the caller when \<open>initializeVectorStore\<close> has returned \<open>result\<close>:
  line 160 for the callback of \<open>app.listen\<close>, line 57 for a request.
\<close>

fun returned :: "caller \<Rightarrow> bool \<Rightarrow> shared \<Rightarrow> shared" where
  "returned StartUp result sh = setInitialized True sh"
| "returned (Request n) result sh = setInitialized result sh"

type_synonym ingestion = "caller \<Rightarrow> files \<Rightarrow> (error + doc list) \<times> files"

fun resume :: "env \<Rightarrow> ingestion \<Rightarrow> caller \<Rightarrow> pc \<Rightarrow> shared \<Rightarrow> pc \<times> shared" where
  "resume e ingest c Arrived sh =
     (if c \<noteq> StartUp \<and> isInitialized (server sh) then (Done, sh)
      else if diskIndex (rag (server sh)) = None then (AwaitDocuments, sh)
      else (AwaitLoad, sh))"
| "resume e ingest c AwaitLoad sh =
     (case loadPersisted (diskIndex (rag (server sh))) of
        Inr store \<Rightarrow> (Done, returned c True (setRag (\<lambda>r. r\<lparr>vectorStore := Some store\<rparr>) sh))
      | Inl err \<Rightarrow> (AwaitDocuments, sh))"
| "resume e ingest c AwaitDocuments sh =
     (case ingest c (tempFiles (rag (server sh))) of
        (Inl err, fs1) \<Rightarrow> (Failed (Wrapped Init err), setRag (\<lambda>r. r\<lparr>tempFiles := fs1\<rparr>) sh)
      | (Inr documents, fs1) \<Rightarrow>
          if documents = [] then
            (AwaitPlaceholder, startPass (setRag (\<lambda>r. r\<lparr>tempFiles := fs1\<rparr>) sh))
          else (AwaitSplit documents, setRag (\<lambda>r. r\<lparr>tempFiles := fs1\<rparr>) sh))"
| "resume e ingest c AwaitPlaceholder sh =
     (case fromDocuments e MemoryVectorStore [noDocumentsAvailable] of
        Inl err \<Rightarrow> (Failed (Wrapped Init err), sh)
      | Inr store \<Rightarrow>
          (Done, returned c False (setRag (\<lambda>r. r\<lparr>vectorStore := Some store\<rparr>) sh)))"
| "resume e ingest c (AwaitSplit documents) sh =
     (case splitDocumentsIntoChunks e documents of
        Inl err \<Rightarrow> (Failed (Wrapped Init err), sh)
      | Inr chunks \<Rightarrow> (AwaitFaiss chunks, startPass sh))"
| "resume e ingest c (AwaitFaiss chunks) sh =
     (case fromDocuments e FaissStore chunks of
        Inl err \<Rightarrow> (Failed (Wrapped Init err), sh)
      | Inr store \<Rightarrow> (AwaitSave chunks, setRag (\<lambda>r. r\<lparr>vectorStore := Some store\<rparr>) sh))"
| "resume e ingest c (AwaitSave chunks) sh =
     (case saveStore e chunks (diskIndex (rag (server sh))) of
        (Some err, left) \<Rightarrow>
          (Failed (Wrapped Init err), setRag (\<lambda>r. r\<lparr>diskIndex := left\<rparr>) sh)
      | (None, saved) \<Rightarrow> (AwaitSaved, countSave (setRag (\<lambda>r. r\<lparr>diskIndex := saved\<rparr>) sh)))"
| "resume e ingest c AwaitSaved sh = (Done, returned c True sh)"
| "resume e ingest c Done sh = (Done, sh)"
| "resume e ingest c (Failed err) sh = (Failed err, sh)"

text \<open>
  The callers and a schedule, which says whose step is next; and one caller on its own.
\<close>

fun run ::
  "env \<Rightarrow> ingestion \<Rightarrow> caller list \<Rightarrow> (caller \<Rightarrow> pc) \<times> shared \<Rightarrow> (caller \<Rightarrow> pc) \<times> shared" where
  "run e ingest [] cfg = cfg"
| "run e ingest (c # sched) (pcs, sh) =
     (case resume e ingest c (pcs c) sh of
        (p, sh1) \<Rightarrow> run e ingest sched (pcs(c := p), sh1))"

fun alone :: "env \<Rightarrow> ingestion \<Rightarrow> caller \<Rightarrow> nat \<Rightarrow> pc \<times> shared \<Rightarrow> pc \<times> shared" where
  "alone e ingest c 0 cfg = cfg"
| "alone e ingest c (Suc n) (p, sh) = alone e ingest c n (resume e ingest c p sh)"

text \<open>
  A step that enters the build: the arrival of a request that finds \<open>isInitialized\<close> false
  (the callback of \<open>app.listen\<close> does not look), and the resolution of a load that fails.
  A run in which every arrival and every load is such a step is a cold run: no caller
  finds the service initialized and none loads an index.
\<close>

fun coldStep :: "caller \<Rightarrow> pc \<Rightarrow> shared \<Rightarrow> bool" where
  "coldStep c Arrived sh = (c = StartUp \<or> \<not> isInitialized (server sh))"
| "coldStep c AwaitLoad sh =
     (case loadPersisted (diskIndex (rag (server sh))) of
        Inl err \<Rightarrow> True
      | Inr store \<Rightarrow> False)"
| "coldStep c p sh = True"

fun coldRun :: "env \<Rightarrow> ingestion \<Rightarrow> caller list \<Rightarrow> (caller \<Rightarrow> pc) \<times> shared \<Rightarrow> bool" where
  "coldRun e ingest [] cfg = True"
| "coldRun e ingest (c # sched) (pcs, sh) =
     (coldStep c (pcs c) sh \<and>
      (case resume e ingest c (pcs c) sh of
         (p, sh1) \<Rightarrow> coldRun e ingest sched (pcs(c := p), sh1)))"

text \<open>
  Chunks of which a store can be built and saved, and documents that split into such
  chunks.
\<close>

definition chunksBuild :: "env \<Rightarrow> doc list \<Rightarrow> bool" where
  "chunksBuild e chunks \<longleftrightarrow>
     chunks \<noteq> [] \<and> embedDocuments e chunks = None \<and>
     (\<forall>disk. fst (faissSave e chunks disk) = None)"

definition documentsBuild :: "env \<Rightarrow> doc list \<Rightarrow> bool" where
  "documentsBuild e documents \<longleftrightarrow>
     documents \<noteq> [] \<and>
     (case splitDocumentsIntoChunks e documents of
        Inl err \<Rightarrow> False
      | Inr chunks \<Rightarrow> chunksBuild e chunks)"

text \<open>
  For a caller that has entered a build that succeeds: the program counters of such a
  build, the most steps a caller still has to take before it is done, and the passes and
  the saves it has still to make.
\<close>

fun building :: "env \<Rightarrow> pc \<Rightarrow> bool" where
  "building e (AwaitSplit documents) = documentsBuild e documents"
| "building e (AwaitFaiss chunks) = chunksBuild e chunks"
| "building e (AwaitSave chunks) = chunksBuild e chunks"
| "building e AwaitPlaceholder = False"
| "building e (Failed err) = False"
| "building e p = True"

fun stepsLeft :: "pc \<Rightarrow> nat" where
  "stepsLeft Arrived = 7"
| "stepsLeft AwaitLoad = 6"
| "stepsLeft AwaitDocuments = 5"
| "stepsLeft (AwaitSplit documents) = 4"
| "stepsLeft (AwaitFaiss chunks) = 3"
| "stepsLeft (AwaitSave chunks) = 2"
| "stepsLeft AwaitSaved = 1"
| "stepsLeft p = 0"

definition passesDue :: "pc \<Rightarrow> nat" where
  "passesDue p = (if 4 \<le> stepsLeft p then 1 else 0)"

definition savesDue :: "pc \<Rightarrow> nat" where
  "savesDue p = (if 2 \<le> stepsLeft p then 1 else 0)"

section \<open>The chunker of the specification\<close>

text \<open>
  Modelled from the spec: the splitter itself. The repository calls the library class
  \<open>RecursiveCharacterTextSplitter\<close> (the parameter \<open>splitDocuments\<close> above) and holds
  none of its code, so the chunker is written here from section 4.2 and the data model
  of the specification: the text of a unit is cut into segments of at most
  \<open>maxChunkSize\<close> characters, at a preferred boundary (a paragraph or sentence end) when
  one is available and by a hard cut otherwise, and each segment after the first starts
  \<open>overlap\<close> characters before the end of the one before it. The preference is the
  parameter \<open>boundary\<close>: the length it proposes for the segment cut from a window of
  \<open>maxChunkSize\<close> characters. A proposal that would not get past the overlap, or that
  exceeds the window, is not available, and the hard cut is used. An overlap that is not
  strictly less than the chunk size is a configuration error.
\<close>

text \<open>Modelled from the spec: the NormalizedUnit and the Chunk of its data model (section 3),
  for any type of metadata.\<close>

record 'm normalized_unit =
  unitText :: jsstring
  unitMetadata :: 'm

record 'm chunk =
  chunkText :: jsstring
  chunkMetadata :: 'm
  chunkIndex :: nat

datatype config_error = OverlapNotBelowChunkSize

text \<open>Modelled from the spec: where the next segment is cut, the preferred boundary when
  it is available and the hard cut otherwise.\<close>

definition cutLength :: "nat \<Rightarrow> nat \<Rightarrow> (jsstring \<Rightarrow> nat option) \<Rightarrow> jsstring \<Rightarrow> nat" where
  "cutLength maxChunkSize overlap boundary str =
     (case boundary (take maxChunkSize str) of
        None \<Rightarrow> maxChunkSize
      | Some n \<Rightarrow> if overlap < n \<and> n \<le> maxChunkSize then n else maxChunkSize)"

text \<open>Modelled from the spec: the segments of a text, each after the first starting
  \<open>overlap\<close> characters before the end of the one before it.\<close>

function segments :: "nat \<Rightarrow> nat \<Rightarrow> (jsstring \<Rightarrow> nat option) \<Rightarrow> jsstring \<Rightarrow> jsstring list" where
  "segments maxChunkSize overlap boundary str =
     (if str = [] then []
      else if length str \<le> maxChunkSize \<or> maxChunkSize \<le> overlap then [str]
      else take (cutLength maxChunkSize overlap boundary str) str #
           segments maxChunkSize overlap boundary
             (drop (cutLength maxChunkSize overlap boundary str - overlap) str))"
  by pat_completeness auto
termination
proof (relation "measure (\<lambda>(m, ov, b, str). length str)")
  show "wf (measure (\<lambda>(m, ov, b, str). length str))" by simp
next
  fix maxChunkSize overlap :: nat and boundary :: "jsstring \<Rightarrow> nat option" and str :: jsstring
  assume ne: "str \<noteq> []" and big: "\<not> (length str \<le> maxChunkSize \<or> maxChunkSize \<le> overlap)"
  have "overlap < cutLength maxChunkSize overlap boundary str"
    using big by (simp add: cutLength_def split: option.split)
  then have "length str - (cutLength maxChunkSize overlap boundary str - overlap) < length str"
    using ne by (cases str) auto
  then show
    "((maxChunkSize, overlap, boundary,
       drop (cutLength maxChunkSize overlap boundary str - overlap) str),
      (maxChunkSize, overlap, boundary, str)) \<in> measure (\<lambda>(m, ov, b, str). length str)"
    by simp
qed

declare segments.simps [simp del]

text \<open>Modelled from the spec: the chunks of one unit, each carrying the unit's metadata
  and the next index, and the chunker over a sequence of units.\<close>

fun emitChunks :: "'m \<Rightarrow> nat \<Rightarrow> jsstring list \<Rightarrow> 'm chunk list" where
  "emitChunks m i [] = []"
| "emitChunks m i (t # ts) =
     \<lparr>chunkText = t, chunkMetadata = m, chunkIndex = i\<rparr> # emitChunks m (Suc i) ts"

definition chunkUnit ::
  "nat \<Rightarrow> nat \<Rightarrow> (jsstring \<Rightarrow> nat option) \<Rightarrow> 'm normalized_unit \<Rightarrow> 'm chunk list" where
  "chunkUnit maxChunkSize overlap boundary u =
     emitChunks (unitMetadata u) 0 (segments maxChunkSize overlap boundary (unitText u))"

definition chunker ::
  "nat \<Rightarrow> nat \<Rightarrow> (jsstring \<Rightarrow> nat option) \<Rightarrow> 'm normalized_unit list \<Rightarrow> config_error + 'm chunk list" where
  "chunker maxChunkSize overlap boundary units =
     (if maxChunkSize \<le> overlap then Inl OverlapNotBelowChunkSize
      else Inr (concat (map (chunkUnit maxChunkSize overlap boundary) units)))"

text \<open>The chunks of a unit joined again, the overlap removed from every chunk but the first.\<close>

fun removeOverlap :: "nat \<Rightarrow> jsstring list \<Rightarrow> jsstring" where
  "removeOverlap overlap [] = []"
| "removeOverlap overlap (c # cs) = c @ concat (map (drop overlap) cs)"

section \<open>The citation pattern, declaratively\<close>

text \<open>
  The language of \<open>sourcesPattern\<close> written out, to state what \<open>matchHere\<close> and
  \<open>splitCommaWs\<close> compute: an opening bracket, the word, white space, a number, then
  items of a comma, optional white space and a number, and the closing bracket.
\<close>

definition citedItem :: "jsstring \<times> jsstring \<Rightarrow> jsstring" where
  "citedItem p = 0x2C # fst p @ snd p"

definition groupText :: "jsstring \<Rightarrow> (jsstring \<times> jsstring) list \<Rightarrow> jsstring" where
  "groupText d items = d @ concat (map citedItem items)"

definition citationText :: "jsstring \<Rightarrow> jsstring \<Rightarrow> (jsstring \<times> jsstring) list \<Rightarrow> jsstring" where
  "citationText ws d items = [0x5B, 0xBB38, 0xC11C] @ ws @ groupText d items @ [0x5D]"

definition digitString :: "jsstring \<Rightarrow> bool" where
  "digitString d \<longleftrightarrow> d \<noteq> [] \<and> list_all is_digit d"

definition wellFormedCitation ::
  "jsstring \<Rightarrow> jsstring \<Rightarrow> (jsstring \<times> jsstring) list \<Rightarrow> bool" where
  "wellFormedCitation ws d items \<longleftrightarrow>
     ws \<noteq> [] \<and> list_all js_space ws \<and> digitString d \<and>
     list_all (\<lambda>p. list_all js_space (fst p) \<and> digitString (snd p)) items"

definition citationAt :: "jsstring \<Rightarrow> bool" where
  "citationAt s \<longleftrightarrow>
     (\<exists>ws d items post. wellFormedCitation ws d items \<and> s = citationText ws d items @ post)"

definition decimalValue :: "jsstring \<Rightarrow> nat" where
  "decimalValue d = foldl (\<lambda>a c. a * 10 + (unat c - 48)) 0 d"

section \<open>Sample inputs\<close>

text \<open>
  A bucket of three objects whose PDF does not parse, the same storage left with one
  object of an unsupported extension, the same storage with no object at all (the
  listing then has no \<open>Contents\<close>), a service that has just started (\<open>vectorDBPath\<close> is
  the empty directory server.js creates), a service that is serving a persisted index,
  and a boundary preference that cuts after the first full stop of a window.
\<close>

definition sampleObjects :: "s3object list" where
  "sampleObjects =
     [\<lparr>key = ascii ''a.txt'', objSize = 5, objLastModified = 1\<rparr>,
      \<lparr>key = ascii ''b.pdf'', objSize = 9, objLastModified = 2\<rparr>,
      \<lparr>key = ascii ''c.md'', objSize = 7, objLastModified = 3\<rparr>]"

definition sampleEnv :: env where
  "sampleEnv =
     \<lparr>listObjectsV2 = Inr (Some sampleObjects),
      extnameLower = (\<lambda>k. dropWhile (\<lambda>c. c \<noteq> 0x2E) k),
      getObject = (\<lambda>k. Inr (ascii ''text of '' @ k)),
      tempPath = (\<lambda>k. ascii ''temp/'' @ k),
      pdfLoad = (\<lambda>p body. Inl (External 7)),
      docxLoad = (\<lambda>p body. Inr [\<lparr>pageContent = body,
                                    metadata = \<lparr>source = Some p, lastModified = None\<rparr>\<rparr>]),
      splitDocuments = (\<lambda>chunkSize chunkOverlap docs. Inr docs),
      embedDocuments = (\<lambda>docs. None),
      embedQuery = (\<lambda>q. None),
      faissSave = (\<lambda>chunks disk. (None, disk)),
      similarity = (\<lambda>q d. 0),
      modelInvoke = (\<lambda>prompt. Inr (ascii ''ok''))\<rparr>"

definition emptyCorpusEnv :: env where
  "emptyCorpusEnv =
     sampleEnv\<lparr>listObjectsV2 :=
       Inr (Some [\<lparr>key = ascii ''notes.exe'', objSize = 1, objLastModified = 4\<rparr>])\<rparr>"

definition emptyBucketEnv :: env where
  "emptyBucketEnv = sampleEnv\<lparr>listObjectsV2 := Inr None\<rparr>"

definition coldState :: rag_state where
  "coldState = \<lparr>vectorStore = None, diskIndex = Some Unloadable, tempFiles = Map.empty\<rparr>"

definition coldService :: server_state where
  "coldService = \<lparr>isInitialized = False, rag = coldState\<rparr>"

definition coldServer :: shared where
  "coldServer = \<lparr>server = coldService, embeddingPasses = 0, saves = 0\<rparr>"

text \<open>
  A schedule of the callback of \<open>app.listen\<close> and two requests: the first request arrives
  while the callback awaits its load, the second when the callback has called
  \<open>FaissStore.fromDocuments\<close>.
\<close>

definition sampleSchedule :: "caller list" where
  "sampleSchedule =
     [StartUp, Request 0, StartUp, StartUp, StartUp, Request 1, Request 0, Request 1, StartUp,
      Request 0, Request 0, Request 1, Request 1, Request 0, Request 1, StartUp, StartUp,
      Request 0, Request 1, Request 0, Request 1]"

definition servingState :: server_state where
  "servingState =
     \<lparr>isInitialized = True,
      rag = \<lparr>vectorStore = Some (FaissStore [\<lparr>pageContent = ascii ''old'',
                  metadata = \<lparr>source = Some (ascii ''old.txt''), lastModified = Some 1\<rparr>\<rparr>]),
             diskIndex = Some (SavedIndex [\<lparr>pageContent = ascii ''old'',
                  metadata = \<lparr>source = Some (ascii ''old.txt''), lastModified = Some 1\<rparr>\<rparr>]),
             tempFiles = Map.empty\<rparr>\<rparr>"

definition afterPeriod :: "jsstring \<Rightarrow> nat option" where
  "afterPeriod window =
     (if 0x2E \<in> set window then Some (Suc (length (takeWhile (\<lambda>c. c \<noteq> 0x2E) window))) else None)"

section \<open>Properties of the answer synthesizer\<close>

subsection \<open>The short circuit\<close>

text \<open>
  With a non-empty retrieved list the generation oracle is invoked once, with the prompt
  built from the query and the documents, whether or not it then fails.
\<close>

lemma generateAnswer_invokes_once:
  "docs \<noteq> [] \<Longrightarrow> snd (generateAnswer invoke query (Some docs)) = [buildPrompt query docs]"
  by (simp add: generateAnswer_def Let_def split: sum.split)

lemma generateAnswer_invokes_once_witness:
  "snd (generateAnswer (\<lambda>prompt. Inl (External 1)) (ascii ''what is new?'')
         (Some [noDocumentsAvailable])) =
   [buildPrompt (ascii ''what is new?'') [noDocumentsAvailable]]"
  using generateAnswer_invokes_once
    [of "[noDocumentsAvailable]" "\<lambda>prompt. Inl (External 1)" "ascii ''what is new?''"]
  by simp

text \<open>
  C5. When the retrieved list is empty or absent, \<open>generateAnswer\<close> returns the fixed
  answer of line 30 with no sources, and no prompt is sent to the generation oracle,
  whatever the oracle and the query are.
\<close>

theorem empty_retrieval_short_circuit:
  "generateAnswer invoke query None =
     (Inr \<lparr>answer = noInformationAnswer, sources = []\<rparr>, []) \<and>
   generateAnswer invoke query (Some []) =
     (Inr \<lparr>answer = noInformationAnswer, sources = []\<rparr>, [])"
  by (simp add: generateAnswer_def)

theorem empty_retrieval_short_circuit_witness:
  "generateAnswer (\<lambda>prompt. Inl (External 1)) (ascii ''what is new?'') (Some []) =
     (Inr \<lparr>answer = noInformationAnswer, sources = []\<rparr>, [])"
  using empty_retrieval_short_circuit [of "\<lambda>prompt. Inl (External 1)" "ascii ''what is new?''"]
  by simp

subsection \<open>The pattern matcher against the declarative pattern\<close>

lemma digit_not_space: "is_digit c \<Longrightarrow> \<not> js_space c"
  by (auto simp: is_digit_def js_space_def word_le_nat_alt)

lemma digit_neq: "is_digit c \<Longrightarrow> c \<noteq> 0x2C \<and> c \<noteq> 0x5D \<and> c \<noteq> 0x2D \<and> c \<noteq> 0x2B \<and> c \<noteq> 0x78 \<and> c \<noteq> 0x58"
  by (auto simp: is_digit_def)

lemma comma_bracket: "\<not> is_digit 0x2C" "\<not> is_digit 0x5D" "\<not> js_space 0x2C"
  by (simp_all add: is_digit_def js_space_def)

lemma digitString_Cons: "digitString d \<Longrightarrow> \<exists>c r. d = c # r \<and> is_digit c \<and> list_all is_digit r"
  by (cases d) (auto simp: digitString_def)

lemma dropWhile_all: "list_all P xs \<Longrightarrow> dropWhile P (xs @ ys) = dropWhile P ys"
  by (induction xs) auto

lemma takeWhile_all: "list_all P xs \<Longrightarrow> takeWhile P (xs @ ys) = xs @ takeWhile P ys"
  by (induction xs) auto

lemma citeTail_items:
  "list_all (\<lambda>p. list_all js_space (fst p) \<and> digitString (snd p)) items \<Longrightarrow>
   citeTail (concat (map citedItem items) @ 0x5D # post) = 0x5D # post"
proof (induction items)
  case Nil
  show ?case by simp
next
  case (Cons p items)
  obtain w n where p: "p = (w, n)" by (cases p)
  from Cons.prems p have w: "list_all js_space w" and n: "digitString n"
    and rest: "list_all (\<lambda>p. list_all js_space (fst p) \<and> digitString (snd p)) items"
    by simp_all
  from n obtain c r where n': "n = c # r" "is_digit c" "list_all is_digit r"
    using digitString_Cons by blast
  let ?more = "concat (map citedItem items) @ 0x5D # post"
  have hd_more: "dropWhile is_digit ?more = ?more" "takeWhile is_digit ?more = []"
    by (cases items; simp add: citedItem_def comma_bracket)+
  have d1: "dropWhile js_space (w @ n @ ?more) = n @ ?more"
    using w n' by (simp add: dropWhile_all digit_not_space)
  have t1: "takeWhile is_digit (n @ ?more) \<noteq> []"
    using n' by simp
  have d2: "dropWhile is_digit (n @ ?more) = ?more"
    using n' hd_more by (simp add: dropWhile_all)
  have "citeTail (concat (map citedItem (p # items)) @ 0x5D # post) = citeTail ?more"
    using d1 t1 d2 by (simp add: p citedItem_def)
  with Cons.IH [OF rest] show ?case by simp
qed

lemma matchHere_citation:
  assumes "wellFormedCitation ws d items"
  shows "matchHere (citationText ws d items @ post) = Some (groupText d items)"
proof -
  from assms have ws: "ws \<noteq> []" "list_all js_space ws" and d: "digitString d"
    and items: "list_all (\<lambda>p. list_all js_space (fst p) \<and> digitString (snd p)) items"
    by (simp_all add: wellFormedCitation_def)
  from d obtain c r where d': "d = c # r" "is_digit c" "list_all is_digit r"
    using digitString_Cons by blast
  let ?more = "concat (map citedItem items) @ 0x5D # post"
  let ?r2 = "d @ ?more"
  have hd_more: "dropWhile is_digit ?more = ?more"
    by (cases items; simp add: citedItem_def comma_bracket)
  have t0: "takeWhile js_space (ws @ ?r2) \<noteq> []"
    using ws by (cases ws) auto
  have d0: "dropWhile js_space (ws @ ?r2) = ?r2"
    using ws d' by (simp add: dropWhile_all digit_not_space)
  have t1: "takeWhile is_digit ?r2 \<noteq> []" using d' by simp
  have d1: "dropWhile is_digit ?r2 = ?more"
    using d' hd_more by (simp add: dropWhile_all)
  have ct: "citeTail ?more = 0x5D # post" by (rule citeTail_items [OF items])
  have len: "take (length ?r2 - length (0x5D # post)) ?r2 = groupText d items"
    by (simp add: groupText_def)
  have "citationText ws d items @ post = 0x5B # 0xBB38 # 0xC11C # (ws @ ?r2)"
    by (simp add: citationText_def groupText_def)
  then show ?thesis
    using t0 d0 t1 d1 ct len by (simp add: matchHere_def Let_def del: length_append)
qed

lemma trim_digits: "digitString d \<Longrightarrow> trim d = d"
proof -
  assume d: "digitString d"
  then obtain c r where d': "d = c # r" "is_digit c" "list_all is_digit r"
    using digitString_Cons by blast
  have 1: "dropWhile js_space d = d" using d' by (simp add: digit_not_space)
  have "rev d \<noteq> []" using d' by simp
  then obtain e q where rd: "rev d = e # q" by (cases "rev d") auto
  have "e \<in> set d" using rd by (metis list.set_intros(1) set_rev)
  then have "is_digit e" using d by (auto simp: digitString_def list_all_iff)
  then have 2: "dropWhile js_space (rev d) = rev d" using rd by (simp add: digit_not_space)
  show ?thesis by (simp add: trim_def 1 2)
qed

lemma digitval_digit: "is_digit c \<Longrightarrow> digitval c = unat c - 48"
  by (auto simp: is_digit_def digitval_def)

lemma digitval_less: "is_digit c \<Longrightarrow> digitval c < 10"
  by (auto simp: is_digit_def digitval_def word_le_nat_alt)

lemma foldl_digits:
  "list_all is_digit z \<Longrightarrow>
   foldl (\<lambda>a c. a * 10 + digitval c) a0 z = foldl (\<lambda>a c. a * 10 + (unat c - 48)) a0 z"
  by (induction z arbitrary: a0) (auto simp: digitval_digit)

lemma parseInt_digits:
  assumes "digitString d"
  shows "parseInt d = Some (int (decimalValue d))"
proof -
  from assms obtain c r where d': "d = c # r" "is_digit c" "list_all is_digit r"
    using digitString_Cons by blast
  have all: "list_all is_digit d" using assms by (simp add: digitString_def)
  have tw: "takeWhile (\<lambda>c. digitval c < 10) d = d"
    using all by (induction d) (auto simp: digitval_less)
  have nohex: "\<not> (case d of a # b # _ \<Rightarrow> a = 0x30 \<and> (b = 0x78 \<or> b = 0x58) | _ \<Rightarrow> False)"
    using d' digit_neq by (cases r) auto
  have sgn: "c \<noteq> 0x2D" "c \<noteq> 0x2B" using d' digit_neq by auto
  have dw: "dropWhile js_space d = d" using d' by (simp add: digit_not_space)
  have ne: "d \<noteq> []" using d' by simp
  show ?thesis
    unfolding parseInt_def dw Let_def
    using nohex sgn tw ne foldl_digits [OF all, of 0]
    by (simp add: d' decimalValue_def)
qed

lemma no_comma_digits: "list_all is_digit d \<Longrightarrow> takeWhile (\<lambda>c. c \<noteq> 0x2C) (d @ ys) = d @ takeWhile (\<lambda>c. c \<noteq> 0x2C) ys
   \<and> dropWhile (\<lambda>c. c \<noteq> 0x2C) (d @ ys) = dropWhile (\<lambda>c. c \<noteq> 0x2C) ys"
  by (induction d) (auto simp: digit_neq)

lemma splitCommaWs_group:
  "list_all is_digit d \<Longrightarrow>
   list_all (\<lambda>p. list_all js_space (fst p) \<and> digitString (snd p)) items \<Longrightarrow>
   splitCommaWs (d @ concat (map citedItem items)) = d # map snd items"
proof (induction items arbitrary: d)
  case Nil
  then have dw: "dropWhile (\<lambda>c. c \<noteq> 0x2C) d = []"
    using no_comma_digits [of d "[]"] by simp
  have "splitCommaWs d = [d]"
    by (subst splitCommaWs.simps) (simp only: dw list.case)
  then show ?case by simp
next
  case (Cons p items)
  obtain w n where p: "p = (w, n)" by (cases p)
  from Cons.prems p have w: "list_all js_space w" and n: "digitString n"
    and rest: "list_all (\<lambda>p. list_all js_space (fst p) \<and> digitString (snd p)) items"
    by simp_all
  from n obtain c r where n': "n = c # r" "is_digit c" "list_all is_digit r"
    using digitString_Cons by blast
  let ?more = "concat (map citedItem items)"
  let ?s = "d @ 0x2C # w @ n @ ?more"
  have s: "d @ concat (map citedItem (p # items)) = ?s" by (simp add: p citedItem_def)
  have dw: "dropWhile (\<lambda>c. c \<noteq> 0x2C) ?s = 0x2C # w @ n @ ?more"
    and tw: "takeWhile (\<lambda>c. c \<noteq> 0x2C) ?s = d"
    using no_comma_digits [OF Cons.prems(1), of "0x2C # w @ n @ ?more"] by simp_all
  have ds: "dropWhile js_space (w @ n @ ?more) = n @ ?more"
    using w n' by (simp add: dropWhile_all digit_not_space)
  have nall: "list_all is_digit n" using n by (simp add: digitString_def)
  have "splitCommaWs ?s = d # splitCommaWs (n @ ?more)"
    by (subst splitCommaWs.simps) (simp only: dw tw ds list.case)
  with Cons.IH [OF nall rest] show ?case unfolding s by (simp add: p)
qed

lemma firstMatch_skip:
  "\<forall>k<length pre. matchHere (drop k (pre @ s)) = None \<Longrightarrow> matchHere s = Some g \<Longrightarrow>
   firstMatch (pre @ s) = Some g"
proof (induction pre)
  case Nil
  then show ?case by (cases s) simp_all
next
  case (Cons c pre)
  from Cons.prems(1) have 0: "matchHere ((c # pre) @ s) = None" by force
  have "\<forall>k<length pre. matchHere (drop k (pre @ s)) = None"
  proof (intro allI impI)
    fix k assume "k < length pre"
    then have "Suc k < length (c # pre)" by simp
    with Cons.prems(1) have "matchHere (drop (Suc k) ((c # pre) @ s)) = None" by blast
    then show "matchHere (drop k (pre @ s)) = None" by simp
  qed
  from Cons.IH [OF this Cons.prems(2)] 0 show ?case by simp
qed

lemma citeTail_sound:
  "\<exists>items. list_all (\<lambda>p. list_all js_space (fst p) \<and> digitString (snd p)) items \<and>
     s = concat (map citedItem items) @ citeTail s"
proof (induction s rule: citeTail.induct)
  case 1
  show ?case by (rule exI [of _ "[]"]) simp
next
  case (2 c r)
  show ?case
  proof (cases "c = 0x2C \<and> takeWhile is_digit (dropWhile js_space r) \<noteq> []")
    case False
    then have "citeTail (c # r) = c # r" by (auto simp: Let_def)
    then show ?thesis by (intro exI [of _ "[]"]) simp
  next
    case True
    let ?w = "takeWhile js_space r"
    let ?r1 = "dropWhile js_space r"
    let ?n = "takeWhile is_digit ?r1"
    let ?r2 = "dropWhile is_digit ?r1"
    from True "2.IH" [of ?r1] obtain items where
      items: "list_all (\<lambda>p. list_all js_space (fst p) \<and> digitString (snd p)) items"
      and eq: "?r2 = concat (map citedItem items) @ citeTail ?r2"
      by auto
    have ct: "citeTail (c # r) = citeTail ?r2" using True by (simp add: Let_def)
    have w: "list_all js_space ?w" by (simp add: list_all_iff) (meson set_takeWhileD)
    have n: "digitString ?n"
      using True by (simp add: digitString_def list_all_iff) (meson set_takeWhileD)
    have "c # r = 0x2C # ?w @ ?n @ ?r2" using True by simp
    also have "\<dots> = concat (map citedItem ((?w, ?n) # items)) @ citeTail ?r2"
      using eq by (simp add: citedItem_def)
    finally have A: "c # r = concat (map citedItem ((?w, ?n) # items)) @ citeTail ?r2" .
    have "c # r = concat (map citedItem ((?w, ?n) # items)) @ citeTail (c # r)"
      by (subst ct) (rule A)
    moreover have "list_all (\<lambda>p. list_all js_space (fst p) \<and> digitString (snd p)) ((?w, ?n) # items)"
      using w n items by simp
    ultimately show ?thesis by blast
  qed
qed

lemma matchHere_sound:
  assumes "matchHere s = Some g"
  shows "citationAt s"
proof -
  from assms obtain r1 where s: "s = 0x5B # 0xBB38 # 0xC11C # r1"
    and ws: "takeWhile js_space r1 \<noteq> []"
    and dg: "takeWhile is_digit (dropWhile js_space r1) \<noteq> []"
    and rb: "\<exists>post. citeTail (dropWhile is_digit (dropWhile js_space r1)) = 0x5D # post"
    by (auto simp: matchHere_def Let_def split: list.splits if_splits)
  let ?ws = "takeWhile js_space r1"
  let ?r2 = "dropWhile js_space r1"
  let ?d = "takeWhile is_digit ?r2"
  let ?r3 = "dropWhile is_digit ?r2"
  from rb obtain post where post: "citeTail ?r3 = 0x5D # post" by blast
  from citeTail_sound [of ?r3] obtain items where
    items: "list_all (\<lambda>p. list_all js_space (fst p) \<and> digitString (snd p)) items"
    and eq: "?r3 = concat (map citedItem items) @ citeTail ?r3"
    by blast
  have "list_all js_space ?ws" by (simp add: list_all_iff) (meson set_takeWhileD)
  moreover have "digitString ?d"
    using dg by (simp add: digitString_def list_all_iff) (meson set_takeWhileD)
  ultimately have wf: "wellFormedCitation ?ws ?d items"
    using ws items by (simp add: wellFormedCitation_def)
  have "r1 = ?ws @ ?d @ ?r3" by simp
  also have "\<dots> = ?ws @ ?d @ concat (map citedItem items) @ 0x5D # post"
    using eq post by simp
  finally have "s = citationText ?ws ?d items @ post"
    by (simp add: s citationText_def groupText_def)
  with wf show ?thesis unfolding citationAt_def by blast
qed

lemma citationAt_iff_matchHere: "citationAt s \<longleftrightarrow> matchHere s \<noteq> None"
proof
  assume "citationAt s"
  then show "matchHere s \<noteq> None"
    unfolding citationAt_def using matchHere_citation by fastforce
next
  assume "matchHere s \<noteq> None"
  then show "citationAt s" using matchHere_sound by blast
qed

lemma sourceIndices_citation:
  assumes wf: "wellFormedCitation ws d items"
    and first: "\<forall>k<length pre. \<not> citationAt (drop k (pre @ citationText ws d items @ post))"
  shows "sourceIndices (pre @ citationText ws d items @ post) =
         map (\<lambda>n. Some (int (decimalValue n) - 1)) (d # map snd items)"
proof -
  from wf have d: "digitString d"
    and items: "list_all (\<lambda>p. list_all js_space (fst p) \<and> digitString (snd p)) items"
    by (simp_all add: wellFormedCitation_def)
  have nomatch: "\<forall>k<length pre. matchHere (drop k (pre @ citationText ws d items @ post)) = None"
    using first by (simp add: citationAt_iff_matchHere)
  have fm: "firstMatch (pre @ citationText ws d items @ post) = Some (groupText d items)"
    by (rule firstMatch_skip [OF nomatch matchHere_citation [OF wf]])
  have ne: "groupText d items \<noteq> []" using d by (simp add: groupText_def digitString_def)
  have sp: "splitCommaWs (groupText d items) = d # map snd items"
    unfolding groupText_def using d items by (intro splitCommaWs_group) (simp_all add: digitString_def)
  have each: "map_option (\<lambda>n. n - 1) (parseInt (trim n)) = Some (int (decimalValue n) - 1)"
    if "n \<in> set (d # map snd items)" for n
  proof -
    from that have "digitString n" using d items by (auto simp: list_all_iff)
    then show ?thesis by (simp add: trim_digits parseInt_digits)
  qed
  have "map (\<lambda>num. map_option (\<lambda>n. n - 1) (parseInt (trim num))) (d # map snd items) =
        map (\<lambda>n. Some (int (decimalValue n) - 1)) (d # map snd items)"
    by (rule map_cong [OF refl]) (rule each)
  then show ?thesis by (simp add: sourceIndices_def fm ne sp)
qed

lemma keep_in_range:
  "[index. Some index \<leftarrow> map (\<lambda>n. Some (f n)) xs, P index] = filter P (map f xs)"
  by (induction xs) auto

text \<open>
  C1 (as amended). Citation extraction takes the first occurrence of the bracketed
  pattern in the answer text, reads its comma-separated numbers, turns each from 1-based
  to 0-based, drops every index outside \<open>[0, length docs)\<close> and maps the others, in the
  order cited, to an entry whose content is the first 150 code units of the document's
  text followed by three full stops, and whose title is the document's
  \<open>metadata.source\<close> when that is present and not empty, and the fallback title (the
  word and the document's 1-based number) otherwise. The answer is any text
  \<open>pre @ citation @ post\<close> in which no citation starts inside \<open>pre\<close>.
\<close>

theorem citation_extraction:
  assumes "wellFormedCitation ws d items"
    and "\<forall>k<length pre. \<not> citationAt (drop k (pre @ citationText ws d items @ post))"
  shows "extractSources (pre @ citationText ws d items @ post) docs =
         map (\<lambda>index. \<lparr>title = sourceOr (docs ! nat index) (fallbackTitle (nat index)),
                       content = take 150 (pageContent (docs ! nat index)) @ ascii ''...''\<rparr>)
             (filter (\<lambda>index. 0 \<le> index \<and> index < int (length docs))
                (map (\<lambda>n. int (decimalValue n) - 1) (d # map snd items)))"
  unfolding extractSources_def sourceIndices_citation [OF assms]
  by (simp only: keep_in_range)

theorem citation_extraction_witness:
  "wellFormedCitation [0x20] [0x31] [([0x20], [0x33])] \<and>
   extractSources (ascii ''See ['' @ [0xBB38, 0xC11C] @ ascii '' 1, 3].'')
     [\<lparr>pageContent = ascii ''alpha'', metadata = \<lparr>source = Some (ascii ''a.txt''), lastModified = None\<rparr>\<rparr>,
      \<lparr>pageContent = ascii ''beta'', metadata = \<lparr>source = Some (ascii ''b.txt''), lastModified = None\<rparr>\<rparr>] =
   [\<lparr>title = ascii ''a.txt'', content = ascii ''alpha...''\<rparr>]"
proof -
  have wf: "wellFormedCitation [0x20] [0x31] [([0x20], [0x33])]"
    by (simp add: wellFormedCitation_def digitString_def js_space_def is_digit_def)
  have first: "\<forall>k<length (ascii ''See '').
      \<not> citationAt (drop k (ascii ''See '' @ citationText [0x20] [0x31] [([0x20], [0x33])] @ [0x2E]))"
    by (simp add: ascii_def citationAt_iff_matchHere matchHere_def citationText_def
        groupText_def citedItem_def All_less_Suc)
  let ?docs = "[\<lparr>pageContent = ascii ''alpha'', metadata = \<lparr>source = Some (ascii ''a.txt''), lastModified = None\<rparr>\<rparr>,
      \<lparr>pageContent = ascii ''beta'', metadata = \<lparr>source = Some (ascii ''b.txt''), lastModified = None\<rparr>\<rparr>]"
  have eq: "ascii ''See ['' @ [0xBB38, 0xC11C] @ ascii '' 1, 3].'' =
        ascii ''See '' @ citationText [0x20] [0x31] [([0x20], [0x33])] @ [0x2E]"
    by (simp add: ascii_def citationText_def groupText_def citedItem_def)
  have "extractSources (ascii ''See ['' @ [0xBB38, 0xC11C] @ ascii '' 1, 3].'') ?docs =
        [\<lparr>title = ascii ''a.txt'', content = ascii ''alpha...''\<rparr>]"
    unfolding eq citation_extraction [OF wf first]
    by (simp add: decimalValue_def sourceOr_def ascii_def)
  with wf show ?thesis by simp
qed

text \<open>
  Against C1 as stated: the entry of the placeholder index has no \<open>metadata.source\<close>, and
  the title of the source made from it is the fallback title.
\<close>

theorem title_is_not_always_the_source:
  "extractSources [0x5B, 0xBB38, 0xC11C, 0x20, 0x31, 0x5D] [noDocumentsAvailable] =
     [\<lparr>title = [0xBB38, 0xC11C, 0x20, 0x31], content = ascii ''No documents available...''\<rparr>] \<and>
   source (metadata noDocumentsAvailable) = None"
  by code_simp

text \<open>
  The prompt asks for citations in the form of its example, with the word before every
  number. The pattern allows the word only once, after the opening bracket, so an answer
  that follows the example yields no source, whatever was retrieved.
\<close>

lemma requested_format_not_matched:
  "extractSources [0x5B, 0xBB38, 0xC11C, 0x20, 0x31, 0x2C, 0x20, 0xBB38, 0xC11C, 0x20, 0x33, 0x5D] docs = []"
proof -
  have "firstMatch [0x5B, 0xBB38, 0xC11C, 0x20, 0x31, 0x2C, 0x20, 0xBB38, 0xC11C, 0x20, 0x33, 0x5D] = None"
    by code_simp
  then show ?thesis by (simp add: extractSources_def sourceIndices_def)
qed

section \<open>Properties of the ingestion pass\<close>

text \<open>
  \<open>listObjectsByExtension\<close> returns only objects whose extension is one of those asked
  for, whatever the bucket holds.
\<close>

lemma listing_only_supported:
  assumes "listObjectsByExtension e extensions = Inr objects"
  shows "list_all (\<lambda>obj. extnameLower e (key obj) \<in> set extensions) objects"
  using assms
  by (auto simp: listObjectsByExtension_def list_all_iff split: sum.splits)

lemma listing_only_supported_witness:
  "listObjectsByExtension
     (sampleEnv\<lparr>listObjectsV2 :=
        Inr (Some (\<lparr>key = ascii ''notes.exe'', objSize = 1, objLastModified = 4\<rparr> # sampleObjects))\<rparr>)
     SUPPORTED_EXTENSIONS = Inr sampleObjects \<and>
   list_all (\<lambda>obj. extnameLower sampleEnv (key obj) \<in> set SUPPORTED_EXTENSIONS) sampleObjects"
proof -
  have l: "listObjectsByExtension
     (sampleEnv\<lparr>listObjectsV2 :=
        Inr (Some (\<lparr>key = ascii ''notes.exe'', objSize = 1, objLastModified = 4\<rparr> # sampleObjects))\<rparr>)
     SUPPORTED_EXTENSIONS = Inr sampleObjects"
    by code_simp
  from listing_only_supported [OF l] l show ?thesis by (simp add: sampleEnv_def)
qed

lemma loadFile_written: "loadFile loader p (fs(p \<mapsto> body)) = loader p body"
  by (simp add: loadFile_def)

lemma processObject_docs:
  "fst (processObject e obj fs) = fst (processObject e obj fs')"
  by (simp add: processObject_def downloadObjectToTemp_def loadFile_written Let_def
      split: sum.split)

lemma loadLoop_documents:
  "fst (loadLoop e objects documents fs) =
   documents @ concat (map (\<lambda>obj. case fst (processObject e obj Map.empty) of
                                   Inl err \<Rightarrow> [] | Inr docs \<Rightarrow> docs) objects)"
proof (induction objects arbitrary: documents fs)
  case Nil
  show ?case by simp
next
  case (Cons obj objects)
  obtain r fs1 where p: "processObject e obj fs = (r, fs1)" by (cases "processObject e obj fs")
  then have r: "fst (processObject e obj Map.empty) = r"
    using processObject_docs [of e obj Map.empty fs] by simp
  show ?case
    by (cases r) (simp_all add: p r Cons.IH)
qed

text \<open>
  C8. When the listing succeeds, the ingestion pass never raises: its result is the
  documents of every listed object with a supported extension, in order, where an
  object whose processing raised (a failed download, a parser error) contributes
  nothing and every other object contributes all of its documents.
\<close>

theorem ingestion_skips_failures:
  assumes "listObjectsV2 e = Inr (Some contents)"
  shows "fst (loadDocumentsFromS3 e fs) =
         Inr (concat (map (\<lambda>obj. case fst (processObject e obj Map.empty) of
                                   Inl err \<Rightarrow> [] | Inr docs \<Rightarrow> docs)
                (filter (\<lambda>obj. extnameLower e (key obj) \<in> set SUPPORTED_EXTENSIONS) contents)))"
proof -
  let ?objects = "filter (\<lambda>obj. extnameLower e (key obj) \<in> set SUPPORTED_EXTENSIONS) contents"
  have l: "listObjectsByExtension e SUPPORTED_EXTENSIONS = Inr ?objects"
    using assms by (simp add: listObjectsByExtension_def listAllObjects_def)
  show ?thesis
  proof (cases "?objects = []")
    case True
    then show ?thesis by (simp add: loadDocumentsFromS3_def l)
  next
    case False
    obtain documents fs1 where ll: "loadLoop e ?objects [] fs = (documents, fs1)"
      by (cases "loadLoop e ?objects [] fs")
    with loadLoop_documents [of e ?objects "[]" fs] False show ?thesis
      by (simp add: loadDocumentsFromS3_def l)
  qed
qed

theorem ingestion_skips_failures_witness:
  "listObjectsV2 sampleEnv = Inr (Some sampleObjects) \<and>
   fst (processObject sampleEnv \<lparr>key = ascii ''b.pdf'', objSize = 9, objLastModified = 2\<rparr> Map.empty) =
     Inl (External 7) \<and>
   fst (loadDocumentsFromS3 sampleEnv Map.empty) =
     Inr [\<lparr>pageContent = ascii ''text of a.txt'',
           metadata = \<lparr>source = Some (ascii ''a.txt''), lastModified = Some 1\<rparr>\<rparr>,
          \<lparr>pageContent = ascii ''text of c.md'',
           metadata = \<lparr>source = Some (ascii ''c.md''), lastModified = Some 3\<rparr>\<rparr>]"
proof -
  have l: "listObjectsV2 sampleEnv = Inr (Some sampleObjects)" by (simp add: sampleEnv_def)
  have "fst (loadDocumentsFromS3 sampleEnv Map.empty) =
     Inr [\<lparr>pageContent = ascii ''text of a.txt'',
           metadata = \<lparr>source = Some (ascii ''a.txt''), lastModified = Some 1\<rparr>\<rparr>,
          \<lparr>pageContent = ascii ''text of c.md'',
           metadata = \<lparr>source = Some (ascii ''c.md''), lastModified = Some 3\<rparr>\<rparr>]"
    unfolding ingestion_skips_failures [OF l, of Map.empty] by code_simp
  moreover have "fst (processObject sampleEnv
      \<lparr>key = ascii ''b.pdf'', objSize = 9, objLastModified = 2\<rparr> Map.empty) = Inl (External 7)"
    by code_simp
  ultimately show ?thesis using l by simp
qed

text \<open>
  C6 fails on the code. The removal of the temporary file is the last statement of the
  \<open>try\<close> block, not a \<open>finally\<close>: when the parser raises, control leaves the block before
  it, and the file stays. In the sample bucket the pass ends with the temporary file of
  the PDF still in place.
\<close>

theorem temp_file_left_after_parse_failure:
  "fst (loadDocumentsFromS3 sampleEnv Map.empty) =
     Inr [\<lparr>pageContent = ascii ''text of a.txt'',
           metadata = \<lparr>source = Some (ascii ''a.txt''), lastModified = Some 1\<rparr>\<rparr>,
          \<lparr>pageContent = ascii ''text of c.md'',
           metadata = \<lparr>source = Some (ascii ''c.md''), lastModified = Some 3\<rparr>\<rparr>] \<and>
   snd (loadDocumentsFromS3 sampleEnv Map.empty) (ascii ''temp/b.pdf'') = Some (ascii ''text of b.pdf'')"
  by code_simp

lemma temp_file_kept_when_load_fails:
  assumes "extnameLower e (key obj) = ascii ''.pdf''"
    and "getObject e (key obj) = Inr body"
    and "pdfLoad e (tempPath e (key obj)) body = Inl err"
  shows "processObject e obj fs = (Inl err, fs(tempPath e (key obj) \<mapsto> body))"
  using assms by (simp add: processObject_def downloadObjectToTemp_def loadFile_def)

lemma temp_file_removed_when_load_succeeds:
  assumes "extnameLower e (key obj) = ascii ''.pdf''"
    and "getObject e (key obj) = Inr body"
    and "pdfLoad e (tempPath e (key obj)) body = Inr docs"
    and "tempPath e (key obj) \<noteq> []"
  shows "processObject e obj fs = (Inr docs, fs(tempPath e (key obj) := None))"
  using assms by (simp add: processObject_def downloadObjectToTemp_def loadFile_def removeTemp_def)

section \<open>Properties of the index life cycle\<close>

lemma initialize_outcomes:
  assumes "initializeVectorStore e st = (r, st')"
  shows "(\<exists>docs. diskIndex st = Some (SavedIndex docs) \<and> r = Inr True \<and>
            st' = st\<lparr>vectorStore := Some (FaissStore docs)\<rparr>) \<or>
         ((diskIndex st = None \<or> diskIndex st = Some Unloadable) \<and> buildVectorStore e st = (r, st'))"
  using assms
  by (auto simp: initializeVectorStore_def faissLoad_def split: option.splits persisted.splits)

lemma saveStore_success:
  "saveStore e chunks disk = (None, saved) \<Longrightarrow> chunks \<noteq> [] \<and> saved = Some (SavedIndex chunks)"
  by (auto simp: saveStore_def split: prod.splits option.splits if_splits)

lemma build_outcomes:
  assumes "buildVectorStore e st = (r, st')"
  shows "(r = Inr False \<and> fst (loadDocumentsFromS3 e (tempFiles st)) = Inr [] \<and>
            diskIndex st' = diskIndex st \<and>
            vectorStore st' = Some (MemoryVectorStore [noDocumentsAvailable])) \<or>
         ((\<exists>err. r = Inl err) \<and> diskIndex st' = diskIndex st \<and> vectorStore st' = vectorStore st) \<or>
         (\<exists>documents chunks. fst (loadDocumentsFromS3 e (tempFiles st)) = Inr documents \<and>
            documents \<noteq> [] \<and> splitDocumentsIntoChunks e documents = Inr chunks \<and>
            embedDocuments e chunks = None \<and> vectorStore st' = Some (FaissStore chunks) \<and>
            ((\<exists>err. r = Inl err) \<or>
             (r = Inr True \<and> chunks \<noteq> [] \<and> diskIndex st' = Some (SavedIndex chunks))))"
proof -
  obtain d fs1 where l: "loadDocumentsFromS3 e (tempFiles st) = (d, fs1)"
    by (cases "loadDocumentsFromS3 e (tempFiles st)")
  show ?thesis
  proof (cases d)
    case (Inl err)
    with assms show ?thesis by (auto simp: buildVectorStore_def l)
  next
    case (Inr documents)
    show ?thesis
    proof (cases "documents = []")
      case True
      with assms Inr show ?thesis
        by (auto simp: buildVectorStore_def l fromDocuments_def split: option.splits)
    next
      case False
      show ?thesis
      proof (cases "splitDocumentsIntoChunks e documents")
        case (Inl err)
        with assms Inr False show ?thesis by (auto simp: buildVectorStore_def l)
      next
        case split: (Inr chunks)
        show ?thesis
        proof (cases "embedDocuments e chunks")
          case (Some err)
          with assms Inr False split show ?thesis
            by (auto simp: buildVectorStore_def l fromDocuments_def)
        next
          case None
          obtain out left where s: "saveStore e chunks (diskIndex st) = (out, left)"
            by (cases "saveStore e chunks (diskIndex st)")
          show ?thesis
          proof (cases out)
            case (Some err)
            with assms Inr False split None s show ?thesis
              by (auto simp: buildVectorStore_def l fromDocuments_def)
          next
            case none: None
            with s saveStore_success have "chunks \<noteq> []" "left = Some (SavedIndex chunks)"
              by blast+
            with assms Inr False split None s none show ?thesis
              by (auto simp: buildVectorStore_def l fromDocuments_def)
          qed
        qed
      qed
    qed
  qed
qed

lemma placeholder_in_memory:
  assumes "initializeVectorStore e st = (Inr False, st')"
  shows "vectorStore st' = Some (MemoryVectorStore [noDocumentsAvailable])"
proof -
  from initialize_outcomes [OF assms] have "buildVectorStore e st = (Inr False, st')" by auto
  from build_outcomes [OF this] show ?thesis by auto
qed

text \<open>
  C10. An initialization that finds no document (it returns \<open>false\<close>) leaves what lies at
  \<open>vectorDBPath\<close> as it was and holds the placeholder in memory only, and a later
  initialization from that state, in a fresh process and whatever the storage then
  holds, loads nothing and runs the build. Whenever an initialization changes what lies
  at \<open>vectorDBPath\<close>, it did not return \<open>false\<close>: it ran the build over a non-empty list of
  documents and reached the save of the index of their chunks, and when it returned
  \<open>true\<close> that index is what lies at the path.
\<close>

theorem placeholder_is_never_persisted:
  assumes "initializeVectorStore e st = (r, st')"
  shows "(r = Inr False \<longrightarrow>
            diskIndex st' = diskIndex st \<and>
            vectorStore st' = Some (MemoryVectorStore [noDocumentsAvailable]) \<and>
            (\<forall>e2. initializeVectorStore e2 (st'\<lparr>vectorStore := None\<rparr>) =
                  buildVectorStore e2 (st'\<lparr>vectorStore := None\<rparr>))) \<and>
         (diskIndex st' \<noteq> diskIndex st \<longrightarrow>
            r \<noteq> Inr False \<and>
            (\<exists>documents chunks. fst (loadDocumentsFromS3 e (tempFiles st)) = Inr documents \<and>
               documents \<noteq> [] \<and> splitDocumentsIntoChunks e documents = Inr chunks \<and>
               embedDocuments e chunks = None \<and>
               (r = Inr True \<longrightarrow> diskIndex st' = Some (SavedIndex chunks))))"
proof (intro conjI impI)
  assume f: "r = Inr False"
  from initialize_outcomes [OF assms] f
  have un: "diskIndex st = None \<or> diskIndex st = Some Unloadable"
    and b: "buildVectorStore e st = (r, st')" by auto
  from build_outcomes [OF b] f
  show d: "diskIndex st' = diskIndex st"
    and "vectorStore st' = Some (MemoryVectorStore [noDocumentsAvailable])" by auto
  from un d show "\<forall>e2. initializeVectorStore e2 (st'\<lparr>vectorStore := None\<rparr>) =
                  buildVectorStore e2 (st'\<lparr>vectorStore := None\<rparr>)"
    by (auto simp: initializeVectorStore_def faissLoad_def)
next
  assume ch: "diskIndex st' \<noteq> diskIndex st"
  from initialize_outcomes [OF assms] ch
  have b: "buildVectorStore e st = (r, st')" by auto
  from build_outcomes [OF b] ch
  show "r \<noteq> Inr False"
    and "\<exists>documents chunks. fst (loadDocumentsFromS3 e (tempFiles st)) = Inr documents \<and>
               documents \<noteq> [] \<and> splitDocumentsIntoChunks e documents = Inr chunks \<and>
               embedDocuments e chunks = None \<and>
               (r = Inr True \<longrightarrow> diskIndex st' = Some (SavedIndex chunks))" by auto
qed

theorem placeholder_is_never_persisted_witness:
  "fst (initializeVectorStore emptyCorpusEnv coldState) = Inr False \<and>
   diskIndex (snd (initializeVectorStore emptyCorpusEnv coldState)) = Some Unloadable \<and>
   vectorStore (snd (initializeVectorStore emptyCorpusEnv coldState)) =
     Some (MemoryVectorStore [noDocumentsAvailable]) \<and>
   initializeVectorStore sampleEnv
     ((snd (initializeVectorStore emptyCorpusEnv coldState))\<lparr>vectorStore := None\<rparr>) =
   buildVectorStore sampleEnv
     ((snd (initializeVectorStore emptyCorpusEnv coldState))\<lparr>vectorStore := None\<rparr>) \<and>
   fst (initializeVectorStore sampleEnv coldState) = Inr True \<and>
   diskIndex (snd (initializeVectorStore sampleEnv coldState)) =
     Some (SavedIndex
       [\<lparr>pageContent = ascii ''text of a.txt'',
         metadata = \<lparr>source = Some (ascii ''a.txt''), lastModified = Some 1\<rparr>\<rparr>,
        \<lparr>pageContent = ascii ''text of c.md'',
         metadata = \<lparr>source = Some (ascii ''c.md''), lastModified = Some 3\<rparr>\<rparr>])"
proof -
  have r: "fst (initializeVectorStore emptyCorpusEnv coldState) = Inr False" by code_simp
  have "initializeVectorStore emptyCorpusEnv coldState =
        (Inr False, snd (initializeVectorStore emptyCorpusEnv coldState))"
    using r by (metis prod.collapse)
  note empty = placeholder_is_never_persisted [OF this]
  have w: "fst (initializeVectorStore sampleEnv coldState) = Inr True" by code_simp
  have d: "diskIndex (snd (initializeVectorStore sampleEnv coldState)) =
     Some (SavedIndex
       [\<lparr>pageContent = ascii ''text of a.txt'',
         metadata = \<lparr>source = Some (ascii ''a.txt''), lastModified = Some 1\<rparr>\<rparr>,
        \<lparr>pageContent = ascii ''text of c.md'',
         metadata = \<lparr>source = Some (ascii ''c.md''), lastModified = Some 3\<rparr>\<rparr>])"
    by code_simp
  from empty r w d show ?thesis
    by (simp add: coldState_def)
qed

text \<open>
  A non-empty list of documents that splits into no chunk: the store is assigned and the
  save raises, so the initialization raises with the empty store in memory.
\<close>

lemma build_over_no_chunk_raises:
  assumes "fst (loadDocumentsFromS3 e (tempFiles st)) = Inr documents" and "documents \<noteq> []"
    and "splitDocumentsIntoChunks e documents = Inr []"
    and "embedDocuments e [] = None"
  shows "\<exists>err. fst (buildVectorStore e st) = Inl (Wrapped Init err) \<and>
           vectorStore (snd (buildVectorStore e st)) = Some (FaissStore [])"
proof -
  from assms(1) obtain fs1 where l: "loadDocumentsFromS3 e (tempFiles st) = (Inr documents, fs1)"
    by (cases "loadDocumentsFromS3 e (tempFiles st)") auto
  obtain out left where f: "faissSave e [] (diskIndex st) = (out, left)"
    by (cases "faissSave e [] (diskIndex st)")
  show ?thesis
    using assms(2-4)
    by (cases out) (simp_all add: buildVectorStore_def l fromDocuments_def saveStore_def f)
qed

text \<open>
  \<open>reindexDocuments\<close> removes whatever lies at \<open>vectorDBPath\<close> (nothing, when the path does
  not exist), forgets the vector store in memory, and then runs the build, never the load:
  its result is the build's from that state, a success flag with one of the two messages,
  or the build's error wrapped.
\<close>

lemma reindex_clears:
  "(if diskIndex st \<noteq> None then st\<lparr>diskIndex := None\<rparr> else st)\<lparr>vectorStore := None\<rparr> =
   st\<lparr>diskIndex := None, vectorStore := None\<rparr>"
  by (cases st) simp

lemma reindex_is_build_from_scratch:
  "reindexDocuments e st =
     (case buildVectorStore e (st\<lparr>diskIndex := None, vectorStore := None\<rparr>) of
        (Inl err, st3) \<Rightarrow> (Inl (Wrapped Reindex err), st3)
      | (Inr result, st3) \<Rightarrow>
          (Inr \<lparr>success = result,
                message = (if result then reindexDoneMessage else nothingToIndexMessage)\<rparr>, st3))"
  unfolding reindexDocuments_def Let_def reindex_clears
  by (simp add: initializeVectorStore_def)

text \<open>
  When the listing succeeds, the ingestion pass finds no document and the placeholder
  can be embedded, the handler answers \<open>success = false\<close> with the message of line 204,
  \<open>checkStatus\<close> then reports \<open>initialized = false\<close>, nothing lies at \<open>vectorDBPath\<close> and the
  store in memory is the placeholder.
\<close>

lemma reindex_over_no_documents:
  assumes "fst (loadDocumentsFromS3 e (tempFiles st)) = Inr []"
    and "embedDocuments e [noDocumentsAvailable] = None"
  shows "fst (reindexDocumentsHandler e \<lparr>isInitialized = b, rag = st\<rparr>) =
           ReindexResponse \<lparr>success = False, message = nothingToIndexMessage\<rparr> \<and>
         checkStatus (snd (reindexDocumentsHandler e \<lparr>isInitialized = b, rag = st\<rparr>)) =
           StatusResponse False \<and>
         diskIndex (rag (snd (reindexDocumentsHandler e \<lparr>isInitialized = b, rag = st\<rparr>))) = None \<and>
         vectorStore (rag (snd (reindexDocumentsHandler e \<lparr>isInitialized = b, rag = st\<rparr>))) =
           Some (MemoryVectorStore [noDocumentsAvailable])"
proof -
  from assms(1) obtain fs1 where l: "loadDocumentsFromS3 e (tempFiles st) = (Inr [], fs1)"
    by (cases "loadDocumentsFromS3 e (tempFiles st)") auto
  have b: "buildVectorStore e (st\<lparr>diskIndex := None, vectorStore := None\<rparr>) =
        (Inr False, st\<lparr>diskIndex := None, tempFiles := fs1,
                       vectorStore := Some (MemoryVectorStore [noDocumentsAvailable])\<rparr>)"
    using assms(2) by (simp add: buildVectorStore_def l fromDocuments_def)
  have h: "reindexDocumentsHandler e \<lparr>isInitialized = b, rag = st\<rparr> =
        (ReindexResponse \<lparr>success = False, message = nothingToIndexMessage\<rparr>,
         \<lparr>isInitialized = False,
          rag = st\<lparr>diskIndex := None, tempFiles := fs1,
                   vectorStore := Some (MemoryVectorStore [noDocumentsAvailable])\<rparr>\<rparr>)"
    by (simp add: reindexDocumentsHandler_def reindex_is_build_from_scratch b)
  show ?thesis by (simp add: h checkStatus_def)
qed

lemma reindex_over_no_documents_witness:
  "fst (loadDocumentsFromS3 emptyCorpusEnv (tempFiles (rag servingState))) = Inr [] \<and>
   embedDocuments emptyCorpusEnv [noDocumentsAvailable] = None \<and>
   fst (reindexDocumentsHandler emptyCorpusEnv servingState) =
     ReindexResponse \<lparr>success = False, message = nothingToIndexMessage\<rparr> \<and>
   checkStatus (snd (reindexDocumentsHandler emptyCorpusEnv servingState)) = StatusResponse False \<and>
   diskIndex (rag (snd (reindexDocumentsHandler emptyCorpusEnv servingState))) = None"
proof -
  have l: "fst (loadDocumentsFromS3 emptyCorpusEnv (tempFiles (rag servingState))) = Inr []"
    by code_simp
  have m: "embedDocuments emptyCorpusEnv [noDocumentsAvailable] = None"
    by (simp add: emptyCorpusEnv_def sampleEnv_def)
  have s: "servingState = \<lparr>isInitialized = True, rag = rag servingState\<rparr>"
    by (simp add: servingState_def)
  from reindex_over_no_documents [OF l m, of True] l m
  show ?thesis by (simp add: s [symmetric])
qed

text \<open>
  C7 fails on the code. When the bucket has become empty, the answer of the listing has
  no \<open>Contents\<close>, and \<open>response.Contents.map\<close> (s3Service.js, line 31) raises. The error
  passes through every \<open>catch\<close> up to the handler, which answers with status 500 and does
  not assign \<open>isInitialized\<close>: on a service that was serving an index, \<open>checkStatus\<close> goes
  on reporting \<open>initialized = true\<close>, while the index on disk and the store in memory are
  gone. The claim says the reindex returns \<open>success = false\<close> with a message and the
  status then reports not ready.
\<close>

theorem reindex_on_empty_bucket_raises:
  "listAllObjects emptyBucketEnv = Inl (Wrapped S3List TypeError) \<and>
   fst (reindexDocumentsHandler emptyBucketEnv servingState) =
     ServerError (Wrapped Reindex (Wrapped Init (Wrapped S3Load (Wrapped S3List TypeError)))) \<and>
   checkStatus (snd (reindexDocumentsHandler emptyBucketEnv servingState)) = StatusResponse True \<and>
   vectorStore (rag (snd (reindexDocumentsHandler emptyBucketEnv servingState))) = None \<and>
   diskIndex (rag (snd (reindexDocumentsHandler emptyBucketEnv servingState))) = None"
  by code_simp

text \<open>
  C2 (as amended). On the placeholder index built when no document was found, a
  retrieval whose query can be embedded returns, for every \<open>topK\<close> of at least 1, exactly
  the one entry of the placeholder, the document "No documents available", and leaves
  the state as it was.
\<close>

theorem placeholder_retrieval_returns_sentinel:
  assumes "initializeVectorStore e st0 = (Inr False, st)"
    and "embedQuery e query = None"
    and "0 < topK"
  shows "retrieveRelevantDocuments e query topK st = (Inr [noDocumentsAvailable], st)"
proof -
  have v: "vectorStore st = Some (MemoryVectorStore [noDocumentsAvailable])"
    by (rule placeholder_in_memory [OF assms(1)])
  from assms(3) have "take topK [noDocumentsAvailable] = [noDocumentsAvailable]"
    by (cases topK) simp_all
  then show ?thesis
    using assms(2) by (simp add: retrieveRelevantDocuments_def v similaritySearch_def)
qed

theorem placeholder_retrieval_returns_sentinel_witness:
  "fst (initializeVectorStore emptyCorpusEnv coldState) = Inr False \<and>
   fst (retrieveRelevantDocuments emptyCorpusEnv (ascii ''any news?'') 5
          (snd (initializeVectorStore emptyCorpusEnv coldState))) = Inr [noDocumentsAvailable]"
proof -
  have r: "fst (initializeVectorStore emptyCorpusEnv coldState) = Inr False" by code_simp
  then have i: "initializeVectorStore emptyCorpusEnv coldState =
        (Inr False, snd (initializeVectorStore emptyCorpusEnv coldState))"
    by (metis prod.collapse)
  have q: "embedQuery emptyCorpusEnv (ascii ''any news?'') = None"
    by (simp add: emptyCorpusEnv_def sampleEnv_def)
  from placeholder_retrieval_returns_sentinel [OF i q, of 5] r show ?thesis by simp
qed

text \<open>
  Against C2 as stated: with the default \<open>topK\<close> of 5 the retrieval on the placeholder
  index is not empty; it holds the entry of the placeholder.
\<close>

theorem placeholder_retrieval_not_empty:
  "fst (initializeVectorStore emptyCorpusEnv coldState) = Inr False \<and>
   fst (retrieveRelevantDocuments emptyCorpusEnv (ascii ''status of the report'') 5
          (snd (initializeVectorStore emptyCorpusEnv coldState))) = Inr [noDocumentsAvailable] \<and>
   fst (retrieveRelevantDocuments emptyCorpusEnv (ascii ''status of the report'') 5
          (snd (initializeVectorStore emptyCorpusEnv coldState))) \<noteq> Inr []"
  by code_simp

section \<open>Properties of the request handlers\<close>

text \<open>
  A request with no query, an empty query or a query of white space only is answered
  with status 400 before anything else is done: the state is as it was.
\<close>

lemma invalid_query_rejected:
  "handleQuestion e None s = (BadRequest, s) \<and>
   handleQuestion e (Some []) s = (BadRequest, s) \<and>
   handleQuestion e (Some [0x20, 0x9, 0xA]) s = (BadRequest, s)"
  by (simp add: handleQuestion_def trim_def js_space_def)

text \<open>
  On a cold service over a bucket with no document, a question is not answered with the
  fixed answer of the short circuit: the placeholder entry is retrieved, and the answer is
  the generation oracle's, with no source.
\<close>

lemma empty_corpus_question_reaches_oracle:
  "fst (handleQuestion emptyCorpusEnv (Some (ascii ''what is new?'')) coldService) =
     AnswerResponse \<lparr>answer = ascii ''ok'', sources = []\<rparr>"
  by code_simp

section \<open>Properties of concurrent initialization\<close>

subsection \<open>A caller on its own\<close>

lemma alone_finished [simp]:
  "alone e ingest c n (Done, sh) = (Done, sh)"
  "alone e ingest c n (Failed err, sh) = (Failed err, sh)"
  by (induction n) simp_all

lemma alone_add: "alone e ingest c (m + n) cfg = alone e ingest c n (alone e ingest c m cfg)"
proof (induction m arbitrary: cfg)
  case 0
  show ?case by simp
next
  case (Suc m)
  obtain p sh where c: "cfg = (p, sh)" by (cases cfg)
  show ?case by (simp add: c Suc.IH)
qed

lemma server_returned [simp]:
  "server (returned c b sh) = (server sh)\<lparr>isInitialized := (c = StartUp \<or> b)\<rparr>"
  by (cases c) (simp_all add: setInitialized_def)

lemma server_setRag [simp]: "server (setRag f sh) = (server sh)\<lparr>rag := f (rag (server sh))\<rparr>"
  by (simp add: setRag_def)

lemma server_counted [simp]: "server (startPass sh) = server sh" "server (countSave sh) = server sh"
  by (simp_all add: startPass_def countSave_def)

lemma alone_build:
  "fst (alone e (\<lambda>c. loadDocumentsFromS3 e) c 5 (AwaitDocuments, sh)) =
     (case fst (buildVectorStore e (rag (server sh))) of Inl err \<Rightarrow> Failed err | Inr b \<Rightarrow> Done) \<and>
   server (snd (alone e (\<lambda>c. loadDocumentsFromS3 e) c 5 (AwaitDocuments, sh))) =
     (case buildVectorStore e (rag (server sh)) of
        (Inl err, r1) \<Rightarrow> (server sh)\<lparr>rag := r1\<rparr>
      | (Inr b, r1) \<Rightarrow> (server sh)\<lparr>rag := r1, isInitialized := (c = StartUp \<or> b)\<rparr>)"
proof -
  obtain d fs1 where l: "loadDocumentsFromS3 e (tempFiles (rag (server sh))) = (d, fs1)"
    by (cases "loadDocumentsFromS3 e (tempFiles (rag (server sh)))")
  show ?thesis
  proof (cases d)
    case (Inl err)
    then show ?thesis
      by (simp add: eval_nat_numeral buildVectorStore_def l)
  next
    case (Inr documents)
    show ?thesis
    proof (cases "documents = []")
      case True
      then show ?thesis
        by (simp add: eval_nat_numeral buildVectorStore_def l Inr split: sum.split)
    next
      case False
      show ?thesis
      proof (cases "splitDocumentsIntoChunks e documents")
        case (Inl err)
        with False show ?thesis
          by (simp add: eval_nat_numeral buildVectorStore_def l Inr)
      next
        case chunks: (Inr chunks)
        show ?thesis
        proof (cases "fromDocuments e FaissStore chunks")
          case (Inl err)
          with False show ?thesis
            by (simp add: eval_nat_numeral buildVectorStore_def l Inr chunks)
        next
          case store: (Inr store)
          obtain out left where s: "saveStore e chunks (diskIndex (rag (server sh))) = (out, left)"
            by (cases "saveStore e chunks (diskIndex (rag (server sh)))")
          with False show ?thesis
            by (cases out) (simp_all add: eval_nat_numeral buildVectorStore_def l Inr chunks store)
        qed
      qed
    qed
  qed
qed


lemma alone_build_rest:
  "alone e (\<lambda>c. loadDocumentsFromS3 e) c (5 + k) (AwaitDocuments, sh) =
   alone e (\<lambda>c. loadDocumentsFromS3 e) c 5 (AwaitDocuments, sh)"
proof -
  obtain p sh1 where a: "alone e (\<lambda>c. loadDocumentsFromS3 e) c 5 (AwaitDocuments, sh) = (p, sh1)"
    by (cases "alone e (\<lambda>c. loadDocumentsFromS3 e) c 5 (AwaitDocuments, sh)")
  from alone_build [of e c sh] have "p = Done \<or> (\<exists>err. p = Failed err)"
    by (auto simp: a split: sum.splits)
  then show ?thesis
    unfolding alone_add a by auto
qed

lemma alone_initialize:
  assumes "c = StartUp \<or> \<not> isInitialized (server sh)"
  shows "fst (alone e (\<lambda>c. loadDocumentsFromS3 e) c 7 (Arrived, sh)) =
           (case fst (initializeVectorStore e (rag (server sh))) of
              Inl err \<Rightarrow> Failed err | Inr b \<Rightarrow> Done) \<and>
         server (snd (alone e (\<lambda>c. loadDocumentsFromS3 e) c 7 (Arrived, sh))) =
           (case initializeVectorStore e (rag (server sh)) of
              (Inl err, r1) \<Rightarrow> (server sh)\<lparr>rag := r1\<rparr>
            | (Inr b, r1) \<Rightarrow> (server sh)\<lparr>rag := r1, isInitialized := (c = StartUp \<or> b)\<rparr>)"
proof (cases "diskIndex (rag (server sh))")
  case None
  have "alone e (\<lambda>c. loadDocumentsFromS3 e) c 7 (Arrived, sh) =
        alone e (\<lambda>c. loadDocumentsFromS3 e) c (5 + 1) (AwaitDocuments, sh)"
    using assms None by (auto simp: eval_nat_numeral)
  with alone_build [of e c sh] show ?thesis
    by (simp only: alone_build_rest) (simp add: initializeVectorStore_def None)
next
  case (Some p)
  show ?thesis
  proof (cases p)
    case Unloadable
    have "alone e (\<lambda>c. loadDocumentsFromS3 e) c 7 (Arrived, sh) =
          alone e (\<lambda>c. loadDocumentsFromS3 e) c (5 + 0) (AwaitDocuments, sh)"
      using assms Some Unloadable by (auto simp: eval_nat_numeral loadPersisted_def faissLoad_def)
    with alone_build [of e c sh] show ?thesis
      by (simp only: alone_build_rest)
         (simp add: initializeVectorStore_def Some Unloadable faissLoad_def)
  next
    case (SavedIndex docs)
    with assms Some show ?thesis
      by (auto simp: eval_nat_numeral loadPersisted_def faissLoad_def initializeVectorStore_def)
  qed
qed

text \<open>
  A caller that runs on its own does what the sequential reading of the code does: seven
  steps take a request to the end of lines 54 to 58, with the outcome and the state of
  \<open>ensureInitialized\<close>, and the callback of \<open>app.listen\<close> to its end, with those of
  \<open>startUpCallback\<close>.
\<close>

lemma alone_is_ensureInitialized:
  "fst (alone e (\<lambda>c. loadDocumentsFromS3 e) (Request k) 7 (Arrived, sh)) =
     (case fst (ensureInitialized e (server sh)) of None \<Rightarrow> Done | Some err \<Rightarrow> Failed err) \<and>
   server (snd (alone e (\<lambda>c. loadDocumentsFromS3 e) (Request k) 7 (Arrived, sh))) =
     snd (ensureInitialized e (server sh))"
proof (cases "isInitialized (server sh)")
  case True
  then show ?thesis by (simp add: eval_nat_numeral ensureInitialized_def)
next
  case False
  obtain b r1 where i: "initializeVectorStore e (rag (server sh)) = (b, r1)"
    by (cases "initializeVectorStore e (rag (server sh))")
  from alone_initialize [of "Request k" sh e] False show ?thesis
    by (cases b) (simp_all add: ensureInitialized_def i)
qed

lemma alone_is_startUpCallback:
  "fst (alone e (\<lambda>c. loadDocumentsFromS3 e) StartUp 7 (Arrived, sh)) =
     (case fst (startUpCallback e (server sh)) of None \<Rightarrow> Done | Some err \<Rightarrow> Failed err) \<and>
   server (snd (alone e (\<lambda>c. loadDocumentsFromS3 e) StartUp 7 (Arrived, sh))) =
     snd (startUpCallback e (server sh))"
proof -
  obtain b r1 where i: "initializeVectorStore e (rag (server sh)) = (b, r1)"
    by (cases "initializeVectorStore e (rag (server sh))")
  from alone_initialize [of StartUp sh e] show ?thesis
    by (cases b) (simp_all add: startUpCallback_def i)
qed

text \<open>
  The callback of \<open>app.listen\<close> marks the service initialized also when the
  initialization found no document and returned \<open>false\<close>.
\<close>

lemma startUp_marks_initialized:
  "fst (startUpCallback emptyCorpusEnv coldService) = None \<and>
   checkStatus (snd (startUpCallback emptyCorpusEnv coldService)) = StatusResponse True \<and>
   vectorStore (rag (snd (startUpCallback emptyCorpusEnv coldService))) =
     Some (MemoryVectorStore [noDocumentsAvailable])"
  by code_simp

subsection \<open>Callers in any order\<close>

text \<open>
  The documents an ingestion pass returns do not depend on the temporary files it finds.
\<close>

lemma loadDocuments_any_files:
  "fst (loadDocumentsFromS3 e fs) = fst (loadDocumentsFromS3 e fs')"
proof (cases "listObjectsByExtension e SUPPORTED_EXTENSIONS")
  case (Inl err)
  then show ?thesis by (simp add: loadDocumentsFromS3_def)
next
  case (Inr objects)
  obtain d1 f1 where 1: "loadLoop e objects [] fs = (d1, f1)" by (cases "loadLoop e objects [] fs")
  obtain d2 f2 where 2: "loadLoop e objects [] fs' = (d2, f2)" by (cases "loadLoop e objects [] fs'")
  from loadLoop_documents [of e objects "[]" fs] loadLoop_documents [of e objects "[]" fs'] 1 2
  have "d1 = d2" by simp
  then show ?thesis by (simp add: loadDocumentsFromS3_def Inr 1 2)
qed

text \<open>
  One step of a caller that is in a build that succeeds: the caller stays in such a
  build and is a step closer to its end, and the passes and saves made and still due
  add up to what they were.
\<close>

lemma returned_counters [simp]:
  "embeddingPasses (returned c b sh) = embeddingPasses sh"
  "saves (returned c b sh) = saves sh"
  by (cases c; simp add: setInitialized_def)+

lemma setRag_counters [simp]:
  "embeddingPasses (setRag f sh) = embeddingPasses sh"
  "saves (setRag f sh) = saves sh"
  by (simp_all add: setRag_def)

lemma resume_builds:
  assumes ing: "\<And>c fs. \<exists>documents. fst (ingest c fs) = Inr documents \<and> documentsBuild e documents"
    and b: "building e p"
    and cold: "coldStep c p sh"
    and r: "resume e ingest c p sh = (p', sh')"
  shows "building e p' \<and> stepsLeft p' \<le> stepsLeft p - 1 \<and>
         embeddingPasses sh' + passesDue p' = embeddingPasses sh + passesDue p \<and>
         saves sh' + savesDue p' = saves sh + savesDue p"
proof (cases p)
  case Arrived
  with cold r show ?thesis
    by (auto simp: passesDue_def savesDue_def split: if_splits)
next
  case AwaitLoad
  with cold r show ?thesis
    by (auto simp: passesDue_def savesDue_def split: sum.splits)
next
  case AwaitDocuments
  obtain documents where d: "fst (ingest c (tempFiles (rag (server sh)))) = Inr documents"
    and ok: "documentsBuild e documents"
    using ing by blast
  then obtain fs1 where i: "ingest c (tempFiles (rag (server sh))) = (Inr documents, fs1)"
    by (cases "ingest c (tempFiles (rag (server sh)))") auto
  from ok have "documents \<noteq> []" by (simp add: documentsBuild_def)
  with r ok show ?thesis
    by (auto simp: AwaitDocuments i passesDue_def savesDue_def)
next
  case (AwaitSplit documents)
  with b obtain chunks where "splitDocumentsIntoChunks e documents = Inr chunks"
    and "chunksBuild e chunks"
    by (auto simp: documentsBuild_def split: sum.splits)
  with r show ?thesis
    by (auto simp: AwaitSplit passesDue_def savesDue_def startPass_def)
next
  case (AwaitFaiss chunks)
  with b have "embedDocuments e chunks = None" by (simp add: chunksBuild_def)
  with r b show ?thesis
    by (auto simp: AwaitFaiss passesDue_def savesDue_def fromDocuments_def)
next
  case (AwaitSave chunks)
  with b have ne: "chunks \<noteq> []" and s: "fst (faissSave e chunks (diskIndex (rag (server sh)))) = None"
    by (simp_all add: chunksBuild_def)
  then obtain left where "faissSave e chunks (diskIndex (rag (server sh))) = (None, left)"
    by (cases "faissSave e chunks (diskIndex (rag (server sh)))") auto
  with ne have "saveStore e chunks (diskIndex (rag (server sh))) = (None, Some (SavedIndex chunks))"
    by (simp add: saveStore_def)
  with r show ?thesis
    by (auto simp: AwaitSave passesDue_def savesDue_def countSave_def)
next
  case AwaitSaved
  with r show ?thesis by (auto simp: passesDue_def savesDue_def)
next
  case Done
  with r show ?thesis by (auto simp: passesDue_def savesDue_def)
next
  case AwaitPlaceholder
  with b show ?thesis by simp
next
  case (Failed err)
  with b show ?thesis by simp
qed

text \<open>The same along a run, for the callers of a finite set that holds the schedule's.\<close>

lemma sum_one_changed:
  fixes g :: "'b \<Rightarrow> nat"
  assumes "finite U" and "c \<in> U"
  shows "(\<Sum>x\<in>U. g ((f(c := v)) x)) + g (f c) = (\<Sum>x\<in>U. g (f x)) + g v"
proof -
  have "(\<Sum>x\<in>U - {c}. g ((f(c := v)) x)) = (\<Sum>x\<in>U - {c}. g (f x))"
    by (rule sum.cong) simp_all
  then show ?thesis
    using sum.remove [OF assms, of "\<lambda>x. g ((f(c := v)) x)"] sum.remove [OF assms, of "\<lambda>x. g (f x)"]
    by simp
qed

lemma run_builds:
  assumes ing: "\<And>c fs. \<exists>documents. fst (ingest c fs) = Inr documents \<and> documentsBuild e documents"
    and fin: "finite U"
  shows "\<forall>c. building e (pcs c) \<Longrightarrow> coldRun e ingest sched (pcs, sh) \<Longrightarrow> set sched \<subseteq> U \<Longrightarrow>
         run e ingest sched (pcs, sh) = (pcs', sh') \<Longrightarrow>
         (\<forall>c. building e (pcs' c)) \<and>
         (\<forall>c. stepsLeft (pcs' c) \<le> stepsLeft (pcs c) - count_list sched c) \<and>
         embeddingPasses sh' + (\<Sum>c\<in>U. passesDue (pcs' c)) =
           embeddingPasses sh + (\<Sum>c\<in>U. passesDue (pcs c)) \<and>
         saves sh' + (\<Sum>c\<in>U. savesDue (pcs' c)) = saves sh + (\<Sum>c\<in>U. savesDue (pcs c))"
proof (induction sched arbitrary: pcs sh)
  case Nil
  then show ?case by simp
next
  case (Cons a sched)
  obtain p sh1 where r: "resume e ingest a (pcs a) sh = (p, sh1)"
    by (cases "resume e ingest a (pcs a) sh")
  from Cons.prems(1) have ba: "building e (pcs a)" by simp
  from Cons.prems(2) have ca: "coldStep a (pcs a) sh"
    and cr: "coldRun e ingest sched (pcs(a := p), sh1)"
    by (simp_all add: r)
  from Cons.prems(3) have aU: "a \<in> U" and sub: "set sched \<subseteq> U" by simp_all
  from Cons.prems(4) have run: "run e ingest sched (pcs(a := p), sh1) = (pcs', sh')"
    by (simp add: r)
  from resume_builds [OF ing ba ca r]
  have bp: "building e p" and sp: "stepsLeft p \<le> stepsLeft (pcs a) - 1"
    and ep: "embeddingPasses sh1 + passesDue p = embeddingPasses sh + passesDue (pcs a)"
    and vp: "saves sh1 + savesDue p = saves sh + savesDue (pcs a)"
    by simp_all
  from bp Cons.prems(1) have ball: "\<forall>c. building e ((pcs(a := p)) c)" by simp
  from Cons.IH [OF ball cr sub run]
  have 1: "\<forall>c. building e (pcs' c)"
    and 2: "\<forall>c. stepsLeft (pcs' c) \<le> stepsLeft ((pcs(a := p)) c) - count_list sched c"
    and 3: "embeddingPasses sh' + (\<Sum>c\<in>U. passesDue (pcs' c)) =
            embeddingPasses sh1 + (\<Sum>c\<in>U. passesDue ((pcs(a := p)) c))"
    and 4: "saves sh' + (\<Sum>c\<in>U. savesDue (pcs' c)) =
            saves sh1 + (\<Sum>c\<in>U. savesDue ((pcs(a := p)) c))"
    by simp_all
  have steps: "stepsLeft (pcs' c) \<le> stepsLeft (pcs c) - count_list (a # sched) c" for c
  proof (cases "c = a")
    case True
    from 2 have "stepsLeft (pcs' a) \<le> stepsLeft p - count_list sched a" by (simp split: if_splits)
    with sp show ?thesis by (simp add: True)
  next
    case False
    with 2 [rule_format, of c] show ?thesis by simp
  qed
  from 3 ep sum_one_changed [OF fin aU, of passesDue pcs p]
  have passes: "embeddingPasses sh' + (\<Sum>c\<in>U. passesDue (pcs' c)) =
                embeddingPasses sh + (\<Sum>c\<in>U. passesDue (pcs c))"
    by simp
  from 4 vp sum_one_changed [OF fin aU, of savesDue pcs p]
  have saved: "saves sh' + (\<Sum>c\<in>U. savesDue (pcs' c)) = saves sh + (\<Sum>c\<in>U. savesDue (pcs c))"
    by simp
  from 1 steps passes saved show ?case by blast
qed

lemma building_finished: "building e p \<Longrightarrow> stepsLeft p = 0 \<Longrightarrow> p = Done"
  by (cases p) simp_all

text \<open>
  C9 (as amended). Builds are not serialized: no caller awaits a build in flight. In a
  cold run, where every caller of the initialization enters the build (the callback of
  \<open>app.listen\<close>, which does not look at \<open>isInitialized\<close>, and every request that finds it
  false, none of them loading an index from \<open>vectorDBPath\<close>), each caller runs a build of
  its own. When these builds succeed (every ingestion pass returns documents, and they
  split into chunks that can be embedded and saved), then in whatever order the awaited
  operations of the callers complete, every caller that is given its seven steps
  finishes, and as many embedding passes have been made and as many indexes saved as
  there are callers: two for two callers, three for the callback and two requests.
\<close>

theorem concurrent_callers_each_build:
  assumes cold: "coldRun e ingest sched (\<lambda>c. Arrived, sh)"
    and ing: "\<And>c fs. \<exists>documents. fst (ingest c fs) = Inr documents \<and> documentsBuild e documents"
    and enough: "\<forall>c\<in>set sched. 7 \<le> count_list sched c"
  shows "(\<forall>c\<in>set sched. fst (run e ingest sched (\<lambda>c. Arrived, sh)) c = Done) \<and>
         embeddingPasses (snd (run e ingest sched (\<lambda>c. Arrived, sh))) =
           embeddingPasses sh + card (set sched) \<and>
         saves (snd (run e ingest sched (\<lambda>c. Arrived, sh))) = saves sh + card (set sched)"
proof -
  obtain pcs' sh' where fin: "run e ingest sched (\<lambda>c. Arrived, sh) = (pcs', sh')"
    by (cases "run e ingest sched (\<lambda>c. Arrived, sh)")
  have start: "\<forall>c. building e ((\<lambda>c. Arrived) c)" by simp
  from run_builds [OF ing finite_set start cold subset_refl fin]
  have b: "\<And>c. building e (pcs' c)"
    and s: "\<And>c. stepsLeft (pcs' c) \<le> 7 - count_list sched c"
    and p: "embeddingPasses sh' + (\<Sum>c\<in>set sched. passesDue (pcs' c)) =
            embeddingPasses sh + (\<Sum>c\<in>set sched. passesDue Arrived)"
    and v: "saves sh' + (\<Sum>c\<in>set sched. savesDue (pcs' c)) =
            saves sh + (\<Sum>c\<in>set sched. savesDue Arrived)"
    by simp_all
  have finished: "pcs' c = Done" if "c \<in> set sched" for c
  proof -
    from that enough have "7 \<le> count_list sched c" by simp
    with s [of c] have "stepsLeft (pcs' c) = 0" by simp
    with b [of c] show ?thesis by (rule building_finished)
  qed
  then have "(\<Sum>c\<in>set sched. passesDue (pcs' c)) = 0" "(\<Sum>c\<in>set sched. savesDue (pcs' c)) = 0"
    by (simp_all add: passesDue_def savesDue_def)
  with p v finished show ?thesis
    by (simp add: fin passesDue_def savesDue_def)
qed



theorem concurrent_callers_each_build_witness:
  "coldRun sampleEnv (\<lambda>c. loadDocumentsFromS3 sampleEnv) sampleSchedule (\<lambda>c. Arrived, coldServer) \<and>
   fst (run sampleEnv (\<lambda>c. loadDocumentsFromS3 sampleEnv) sampleSchedule (\<lambda>c. Arrived, coldServer))
     StartUp = Done \<and>
   fst (run sampleEnv (\<lambda>c. loadDocumentsFromS3 sampleEnv) sampleSchedule (\<lambda>c. Arrived, coldServer))
     (Request 0) = Done \<and>
   fst (run sampleEnv (\<lambda>c. loadDocumentsFromS3 sampleEnv) sampleSchedule (\<lambda>c. Arrived, coldServer))
     (Request 1) = Done \<and>
   embeddingPasses
     (snd (run sampleEnv (\<lambda>c. loadDocumentsFromS3 sampleEnv) sampleSchedule (\<lambda>c. Arrived, coldServer))) = 3 \<and>
   saves
     (snd (run sampleEnv (\<lambda>c. loadDocumentsFromS3 sampleEnv) sampleSchedule (\<lambda>c. Arrived, coldServer))) = 3"
proof -
  have cold: "coldRun sampleEnv (\<lambda>c. loadDocumentsFromS3 sampleEnv) sampleSchedule (\<lambda>c. Arrived, coldServer)"
    by code_simp
  let ?documents = "[\<lparr>pageContent = ascii ''text of a.txt'',
                      metadata = \<lparr>source = Some (ascii ''a.txt''), lastModified = Some 1\<rparr>\<rparr>,
                     \<lparr>pageContent = ascii ''text of c.md'',
                      metadata = \<lparr>source = Some (ascii ''c.md''), lastModified = Some 3\<rparr>\<rparr>]"
  have docs: "fst (loadDocumentsFromS3 sampleEnv Map.empty) = Inr ?documents"
    by code_simp
  have ok: "documentsBuild sampleEnv ?documents"
    by (simp add: documentsBuild_def chunksBuild_def splitDocumentsIntoChunks_def sampleEnv_def)
  have ing: "\<exists>documents. fst ((\<lambda>c. loadDocumentsFromS3 sampleEnv) c fs) = Inr documents \<and>
               documentsBuild sampleEnv documents" for c :: caller and fs
    using docs ok loadDocuments_any_files [of sampleEnv fs Map.empty] by simp
  have callers: "set sampleSchedule = {StartUp, Request 0, Request 1}"
    by (auto simp: sampleSchedule_def)
  have enough: "\<forall>c\<in>set sampleSchedule. 7 \<le> count_list sampleSchedule c"
    unfolding callers by (simp add: sampleSchedule_def)
  have zero: "embeddingPasses coldServer = 0" "saves coldServer = 0"
    by (simp_all add: coldServer_def)
  from concurrent_callers_each_build [OF cold ing enough] cold show ?thesis
    by (simp add: callers zero)
qed

text \<open>
  Against C9 as stated: on a service that has just started, a request arrives while the
  callback of \<open>app.listen\<close> awaits its load, and the awaited operations of the two then
  complete in turn (the load, the ingestion pass with the splitting, the embedding, the
  write of the save and its resolution). Both callers run the build: two embedding
  passes are made and the index is saved twice, not once.
\<close>

theorem concurrent_cold_start_builds_twice:
  "(case run sampleEnv (\<lambda>c. loadDocumentsFromS3 sampleEnv)
           [StartUp, Request 0, StartUp, Request 0, StartUp, StartUp, Request 0, Request 0,
            StartUp, Request 0, StartUp, Request 0, StartUp, Request 0]
           (\<lambda>c. Arrived, coldServer) of
      (pcs, sh) \<Rightarrow> (pcs StartUp, pcs (Request 0), embeddingPasses sh, saves sh)) =
   (Done, Done, 2, 2)"
  by code_simp

text \<open>
  When the callback of \<open>app.listen\<close> has finished before the requests arrive, they find
  \<open>isInitialized\<close> true and start nothing: one pass and one save.
\<close>

lemma callers_in_turn_build_once:
  "(case run sampleEnv (\<lambda>c. loadDocumentsFromS3 sampleEnv)
           [StartUp, StartUp, StartUp, StartUp, StartUp, StartUp, StartUp, Request 0, Request 0,
            Request 1, Request 1]
           (\<lambda>c. Arrived, coldServer) of
      (pcs, sh) \<Rightarrow> (pcs StartUp, pcs (Request 0), pcs (Request 1), embeddingPasses sh, saves sh)) =
   (Done, Done, Done, 1, 1)"
  by code_simp

section \<open>Properties of the chunker of the specification\<close>

lemma cutLength_bounds:
  "overlap < maxChunkSize \<Longrightarrow>
   overlap < cutLength maxChunkSize overlap boundary s \<and>
   cutLength maxChunkSize overlap boundary s \<le> maxChunkSize"
  by (simp add: cutLength_def split: option.split)

lemma segments_first:
  assumes "overlap < maxChunkSize" and "overlap < length s"
  shows "\<exists>c cs. segments maxChunkSize overlap boundary s = c # cs \<and> overlap < length c"
proof -
  from assms(2) have ne: "s \<noteq> []" by auto
  show ?thesis
  proof (cases "length s \<le> maxChunkSize")
    case True
    with ne assms show ?thesis by (subst segments.simps) simp
  next
    case False
    with ne assms cutLength_bounds [OF assms(1), of boundary s] show ?thesis
      by (subst segments.simps) simp
  qed
qed

lemma removeOverlap_segments:
  "overlap < maxChunkSize \<Longrightarrow>
   removeOverlap overlap (segments maxChunkSize overlap boundary s) = s"
proof (induction maxChunkSize overlap boundary s rule: segments.induct)
  case (1 maxChunkSize overlap boundary s)
  show ?case
  proof (cases "s = [] \<or> length s \<le> maxChunkSize")
    case True
    then show ?thesis by (subst segments.simps) auto
  next
    case False
    let ?cut = "cutLength maxChunkSize overlap boundary s"
    let ?rest = "drop (?cut - overlap) s"
    from cutLength_bounds [OF "1.prems", of boundary s]
    have cut: "overlap < ?cut" "?cut \<le> maxChunkSize" by simp_all
    from False "1.prems" have go: "s \<noteq> []" "\<not> (length s \<le> maxChunkSize \<or> maxChunkSize \<le> overlap)"
      by auto
    have IH: "removeOverlap overlap (segments maxChunkSize overlap boundary ?rest) = ?rest"
      by (rule "1.IH" [OF go "1.prems"])
    have "overlap < length ?rest" using False cut by simp arith
    from segments_first [OF "1.prems" this, of boundary] obtain c cs where
      seg: "segments maxChunkSize overlap boundary ?rest = c # cs" and c: "overlap < length c"
      by blast
    from IH seg have r: "c @ concat (map (drop overlap) cs) = ?rest" by simp
    have "drop overlap c @ concat (map (drop overlap) cs) = drop overlap (c @ concat (map (drop overlap) cs))"
      using c by simp
    also have "\<dots> = drop ?cut s" using cut by (simp add: r)
    finally have tl: "drop overlap c @ concat (map (drop overlap) cs) = drop ?cut s" .
    have "segments maxChunkSize overlap boundary s = take ?cut s # c # cs"
      using go seg by (subst segments.simps) simp
    then show ?thesis using tl by simp
  qed
qed

lemma segments_within:
  "c \<in> set (segments maxChunkSize overlap boundary s) \<Longrightarrow> set c \<subseteq> set s"
proof (induction maxChunkSize overlap boundary s rule: segments.induct)
  case (1 maxChunkSize overlap boundary s)
  show ?case
  proof (cases "s = [] \<or> length s \<le> maxChunkSize \<or> maxChunkSize \<le> overlap")
    case True
    with "1.prems" show ?thesis by (subst (asm) segments.simps) (auto split: if_splits)
  next
    case False
    let ?cut = "cutLength maxChunkSize overlap boundary s"
    let ?rest = "drop (?cut - overlap) s"
    from False have go: "s \<noteq> []" "\<not> (length s \<le> maxChunkSize \<or> maxChunkSize \<le> overlap)"
      by auto
    have "segments maxChunkSize overlap boundary s =
          take ?cut s # segments maxChunkSize overlap boundary ?rest"
      using go by (subst segments.simps) simp
    with "1.prems" consider "c = take ?cut s" | "c \<in> set (segments maxChunkSize overlap boundary ?rest)"
      by auto
    then show ?thesis
    proof cases
      case 1
      then show ?thesis by (auto dest: in_set_takeD)
    next
      case 2
      from "1.IH" [OF go 2] show ?thesis by (auto dest: in_set_dropD)
    qed
  qed
qed

lemma segments_bounded:
  "overlap < maxChunkSize \<Longrightarrow> c \<in> set (segments maxChunkSize overlap boundary s) \<Longrightarrow>
   length c \<le> maxChunkSize"
proof (induction maxChunkSize overlap boundary s rule: segments.induct)
  case (1 maxChunkSize overlap boundary s)
  show ?case
  proof (cases "s = [] \<or> length s \<le> maxChunkSize")
    case True
    with "1.prems" show ?thesis by (subst (asm) segments.simps) (auto split: if_splits)
  next
    case False
    let ?cut = "cutLength maxChunkSize overlap boundary s"
    let ?rest = "drop (?cut - overlap) s"
    from False "1.prems" have go: "s \<noteq> []" "\<not> (length s \<le> maxChunkSize \<or> maxChunkSize \<le> overlap)"
      by auto
    have "segments maxChunkSize overlap boundary s =
          take ?cut s # segments maxChunkSize overlap boundary ?rest"
      using go by (subst segments.simps) simp
    with "1.prems" consider "c = take ?cut s" | "c \<in> set (segments maxChunkSize overlap boundary ?rest)"
      by auto
    then show ?thesis
    proof cases
      case 1
      with cutLength_bounds [OF "1.prems"(1), of boundary s] show ?thesis by simp arith
    next
      case 2
      from "1.IH" [OF go "1.prems"(1) 2] show ?thesis .
    qed
  qed
qed

lemma emitChunks_text: "map chunkText (emitChunks m i ts) = ts"
  by (induction ts arbitrary: i) simp_all

lemma emitChunks_index: "map chunkIndex (emitChunks m i ts) = [i..<i + length ts]"
  by (induction ts arbitrary: i) (simp_all add: upt_rec)

lemma emitChunks_metadata: "map chunkMetadata (emitChunks m i ts) = replicate (length ts) m"
  by (induction ts arbitrary: i) simp_all

lemma emitChunks_length: "length (emitChunks m i ts) = length ts"
  by (induction ts arbitrary: i) simp_all

text \<open>
  C3. With an overlap strictly less than the chunk size (200 and 500 by default), and
  whatever the boundary preference, the chunks of a unit joined with the overlap removed
  from every chunk but the first are the unit's text, and the characters of the text are
  exactly the characters of the chunks.
\<close>

theorem chunking_covers_text:
  assumes "overlap < maxChunkSize"
  shows "removeOverlap overlap (map chunkText (chunkUnit maxChunkSize overlap boundary u)) = unitText u \<and>
         set (unitText u) = (\<Union>c\<in>set (chunkUnit maxChunkSize overlap boundary u). set (chunkText c))"
proof
  let ?segs = "segments maxChunkSize overlap boundary (unitText u)"
  have t: "map chunkText (chunkUnit maxChunkSize overlap boundary u) = ?segs"
    by (simp add: chunkUnit_def emitChunks_text)
  show r: "removeOverlap overlap (map chunkText (chunkUnit maxChunkSize overlap boundary u)) = unitText u"
    unfolding t by (rule removeOverlap_segments [OF assms])
  have "(\<Union>c\<in>set (chunkUnit maxChunkSize overlap boundary u). set (chunkText c)) =
        (\<Union>s\<in>set (map chunkText (chunkUnit maxChunkSize overlap boundary u)). set s)"
    by simp
  also have "\<dots> = (\<Union>s\<in>set ?segs. set s)" by (simp only: t)
  also have "\<dots> = set (unitText u)"
  proof
    show "(\<Union>s\<in>set ?segs. set s) \<subseteq> set (unitText u)"
      using segments_within by fastforce
    have "set (removeOverlap overlap ?segs) \<subseteq> (\<Union>s\<in>set ?segs. set s)"
      by (cases ?segs) (auto dest: in_set_dropD)
    then show "set (unitText u) \<subseteq> (\<Union>s\<in>set ?segs. set s)"
      by (simp add: removeOverlap_segments [OF assms])
  qed
  finally show "set (unitText u) = (\<Union>c\<in>set (chunkUnit maxChunkSize overlap boundary u). set (chunkText c))"
    by simp
qed

theorem chunking_covers_text_witness:
  "(2::nat) < 8 \<and>
   map chunkText (chunkUnit 8 2 afterPeriod
     \<lparr>unitText = ascii ''One. Two two. Three.'', unitMetadata = ascii ''a.txt''\<rparr>) =
     [ascii ''One.'', ascii ''e. Two t'', ascii '' two.'', ascii ''o. Three'', ascii ''ee.''] \<and>
   removeOverlap 2 (map chunkText (chunkUnit 8 2 afterPeriod
     \<lparr>unitText = ascii ''One. Two two. Three.'', unitMetadata = ascii ''a.txt''\<rparr>)) =
     ascii ''One. Two two. Three.''"
proof -
  have l: "(2::nat) < 8" by simp
  have "map chunkText (chunkUnit 8 2 afterPeriod
     \<lparr>unitText = ascii ''One. Two two. Three.'', unitMetadata = ascii ''a.txt''\<rparr>) =
     [ascii ''One.'', ascii ''e. Two t'', ascii '' two.'', ascii ''o. Three'', ascii ''ee.'']"
    by code_simp
  with chunking_covers_text [OF l, of afterPeriod
      "\<lparr>unitText = ascii ''One. Two two. Three.'', unitMetadata = ascii ''a.txt''\<rparr>"]
  show ?thesis by simp
qed

text \<open>
  C4. With an overlap strictly less than the chunk size the chunker returns the chunks
  of its units, unit after unit; every chunk of a unit carries the unit's metadata
  unchanged, and the chunk indices of a unit are 0, 1, 2 and so on in order.
\<close>

theorem chunk_metadata_and_index:
  assumes "overlap < maxChunkSize"
  shows "chunker maxChunkSize overlap boundary units =
           Inr (concat (map (chunkUnit maxChunkSize overlap boundary) units)) \<and>
         map chunkMetadata (chunkUnit maxChunkSize overlap boundary u) =
           replicate (length (chunkUnit maxChunkSize overlap boundary u)) (unitMetadata u) \<and>
         map chunkIndex (chunkUnit maxChunkSize overlap boundary u) =
           [0..<length (chunkUnit maxChunkSize overlap boundary u)]"
  using assms
  by (simp add: chunker_def chunkUnit_def emitChunks_metadata emitChunks_index emitChunks_length)

theorem chunk_metadata_and_index_witness:
  "(2::nat) < 4 \<and>
   length (chunkUnit 4 2 (\<lambda>w. None)
     \<lparr>unitText = ascii ''abcdefg'', unitMetadata = ascii ''a.txt''\<rparr>) = 3 \<and>
   map chunkIndex (chunkUnit 4 2 (\<lambda>w. None)
     \<lparr>unitText = ascii ''abcdefg'', unitMetadata = ascii ''a.txt''\<rparr>) = [0..<3] \<and>
   map chunkMetadata (chunkUnit 4 2 (\<lambda>w. None)
     \<lparr>unitText = ascii ''abcdefg'', unitMetadata = ascii ''a.txt''\<rparr>) =
     replicate 3 (ascii ''a.txt'')"
proof -
  have l: "(2::nat) < 4" by simp
  have n: "length (chunkUnit 4 2 (\<lambda>w. None)
     \<lparr>unitText = ascii ''abcdefg'', unitMetadata = ascii ''a.txt''\<rparr>) = 3"
    by code_simp
  note t = chunk_metadata_and_index [OF l, of "\<lambda>w. None" "[] :: jsstring normalized_unit list"
      "\<lparr>unitText = ascii ''abcdefg'', unitMetadata = ascii ''a.txt''\<rparr>", unfolded n]
  show ?thesis using l n t by simp
qed

end
